theory Spec2Isabelle
  imports Main "HOL-Library.Sublist"
begin

section \<open>Data model\<close>

text \<open>
  Strings of the program are JavaScript strings. They are modelled as \<^typ>\<open>string\<close>;
  a \<^typ>\<open>char\<close> stands for one code unit below 256. A thrown value is any
  JavaScript value. It is modelled by what converting it to a string inside a template
  literal does: \<open>Thrown msg\<close> is a value that converts to the text \<open>msg\<close> (an \<^verbatim>\<open>Error\<close>,
  a string, a number), \<open>Unprintable e\<close> is a value whose conversion throws \<open>e\<close> (for a
  \<^verbatim>\<open>Symbol\<close> or an object without prototype, a \<^verbatim>\<open>TypeError\<close>). Every asynchronous call of the
  program is awaited before the next statement runs, so the calls are modelled in program
  order. A field name that several interfaces share (\<^verbatim>\<open>id\<close>, \<^verbatim>\<open>name\<close>, \<^verbatim>\<open>type\<close>,
  \<^verbatim>\<open>match\<close>, \<^verbatim>\<open>file\<close>, \<^verbatim>\<open>patterns\<close>) carries the name of its interface as a prefix.
\<close>

datatype error = Thrown string | Unprintable error

fun err_text :: "error \<Rightarrow> error + string" where
  "err_text (Thrown msg) = Inr msg"
| "err_text (Unprintable e) = Inl e"

text \<open>\<^verbatim>\<open>src/payload/index.ts\<close>: the closed set of technology categories.\<close>

datatype TechType =
    language | framework | ui_framework | ui | runtime | tool | builder | linter
  | test | ci | hosting | cloud | db | orm | queue | storage | ai | analytics
  | monitoring | auth | payment | notification | cms | saas | iac | security
  | automation | ssg | package_manager | validation | app | network | unknown

text \<open>
  \<^verbatim>\<open>PayloadNode\<close>; the optional field \<^verbatim>\<open>childs\<close> of a node is never set by
  the analyser and is left out. \<^verbatim>\<open>Payload\<close> is the list of nodes.
\<close>

record PayloadNode =
  node_name :: string
  node_type :: TechType

record Payload =
  childs :: "PayloadNode list"

text \<open>\<^verbatim>\<open>src/provider/index.ts\<close>: one listed entry, and the provider interface.
  A rejected promise is the value \<open>Inl e\<close>. The provider only reads, and the repository
  does not change during a scan: each operation is a function of its argument.\<close>

record ProviderFile =
  path :: string
  name :: string
  isDirectory :: bool

record Provider =
  listFiles :: "string \<Rightarrow> error + ProviderFile list"
  readFile :: "string \<Rightarrow> error + string"
  exists_p :: "string \<Rightarrow> error + bool"

text \<open>\<^verbatim>\<open>rules/types.ts\<close>: the rule schema. A value of type \<^verbatim>\<open>string | RegExp\<close> is
  a tagged variant; a regular expression is represented by the predicate that its
  \<^verbatim>\<open>test\<close> method computes (the expression finds a match somewhere in the argument).
  This is \<^verbatim>\<open>test\<close> for an expression without the flags \<^verbatim>\<open>g\<close> and \<^verbatim>\<open>y\<close>; the catalog has
  no expression with them.\<close>

datatype DepType = npm | python | docker | golang | ruby | rust | php

datatype pattern = Str string | RegExp "string \<Rightarrow> bool"

record RuleDependency =
  dep_type :: DepType
  dep_name :: pattern

record ContentPattern =
  cp_file :: string
  cp_patterns :: "pattern list"

record RuleMatch =
  files :: "string list option"
  extensions :: "string list option"
  contentPatterns :: "ContentPattern list option"

record Rule =
  rule_id :: string
  rule_name :: string
  rule_type :: TechType
  rule_match :: "RuleMatch option"
  dependencies :: "RuleDependency list option"
  dotenv :: "string list option"

section \<open>String primitives\<close>

text \<open>\<^verbatim>\<open>s.startsWith(p)\<close>, \<^verbatim>\<open>s.includes(p)\<close>, \<^verbatim>\<open>s.lastIndexOf(c)\<close> (\<open>-1\<close> when the
  character does not occur) and \<^verbatim>\<open>s.substring(i)\<close>.\<close>

definition startsWith :: "string \<Rightarrow> string \<Rightarrow> bool" where
  "startsWith s p = (take (length p) s = p)"

fun includes_str :: "string \<Rightarrow> string \<Rightarrow> bool" where
  "includes_str [] p = (p = [])"
| "includes_str (c # cs) p = (startsWith (c # cs) p \<or> includes_str cs p)"

fun lastIndexOf :: "string \<Rightarrow> char \<Rightarrow> int" where
  "lastIndexOf [] c = - 1"
| "lastIndexOf (x # xs) c =
     (let r = lastIndexOf xs c
      in if 0 \<le> r then r + 1 else if x = c then 0 else - 1)"

definition substring :: "string \<Rightarrow> int \<Rightarrow> string" where
  "substring s i = drop (nat i) s"

text \<open>White space removed by \<^verbatim>\<open>trim\<close> (tab, line feed, vertical tab, form feed,
  carriage return, space, no-break space) and the line terminators that the dot of a
  regular expression does not match (line feed, carriage return).\<close>

definition is_space :: "char \<Rightarrow> bool" where
  "is_space c = (of_char c \<in> {9, 10, 11, 12, 13, 32, 160 :: nat})"

definition is_line_terminator :: "char \<Rightarrow> bool" where
  "is_line_terminator c = (of_char c \<in> {10, 13 :: nat})"

definition trim :: "string \<Rightarrow> string" where
  "trim s = rev (dropWhile is_space (rev (dropWhile is_space s)))"

text \<open>\<^verbatim>\<open>content.split(/\r?\n/)\<close>: a line feed, or a carriage return directly followed
  by a line feed, ends a piece; the empty text gives one empty piece.\<close>

fun split_lines :: "string \<Rightarrow> string list" where
  "split_lines [] = [[]]"
| "split_lines (c # cs) =
     (if c = CHR 0x0A then [] # split_lines cs
      else if c = CHR 0x0D \<and> cs \<noteq> [] \<and> hd cs = CHR 0x0A then [] # split_lines (tl cs)
      else (case split_lines cs of [] \<Rightarrow> [[c]] | l # ls \<Rightarrow> (c # l) # ls))"

section \<open>The provider backed by the local file system\<close>

text \<open>\<^verbatim>\<open>provider/fs.ts\<close>. The functions of \<^verbatim>\<open>fs-extra\<close> and \<^verbatim>\<open>path\<close> that the class
  calls are library code; they are the fields of a record, so the class is modelled for
  every file system. \<^verbatim>\<open>fs.pathExists\<close> never throws.\<close>

record Dirent =
  d_name :: string
  d_isDirectory :: bool

record FileSystem =
  pathExists :: "string \<Rightarrow> bool"
  readdir :: "string \<Rightarrow> error + Dirent list"
  fs_readFile :: "string \<Rightarrow> error + string"
  resolve :: "string \<Rightarrow> string \<Rightarrow> string"
  posix_join :: "string \<Rightarrow> string \<Rightarrow> string"

definition FSProvider :: "FileSystem \<Rightarrow> string \<Rightarrow> Provider" where
  "FSProvider fs root =
     \<lparr>listFiles = (\<lambda>dir.
        (let target = resolve fs root dir
         in if \<not> pathExists fs target then Inr []
            else (case readdir fs target of
                    Inl e \<Rightarrow> Inl e
                  | Inr entries \<Rightarrow>
                      Inr (map (\<lambda>e. \<lparr>path = posix_join fs (if dir = ''.'' then [] else dir) (d_name e),
                                      name = d_name e,
                                      isDirectory = d_isDirectory e\<rparr>)
                             (filter (\<lambda>e. \<not> startsWith (d_name e) ''.'') entries))))),
      readFile = (\<lambda>filePath. fs_readFile fs (resolve fs root filePath)),
      exists_p = (\<lambda>filePath. Inr (pathExists fs (resolve fs root filePath)))\<rparr>"

section \<open>Manifest extractors\<close>

text \<open>\<^verbatim>\<open>l.replace(/#.*$/, '')\<close>: the expression has no flags, so \<open>$\<close> is the end of the
  string and the dot matches no line terminator. The leftmost \<open>#\<close> from which only
  such characters follow up to the end is where the match starts; the match is removed.
  When no \<open>#\<close> qualifies the string is returned unchanged.\<close>

fun strip_comment :: "string \<Rightarrow> string" where
  "strip_comment [] = []"
| "strip_comment (c # cs) =
     (if c = CHR ''#'' \<and> dropWhile (\<lambda>x. \<not> is_line_terminator x) cs = [] then []
      else c # strip_comment cs)"

text \<open>\<^verbatim>\<open>l.split(/[><=!~;\[]/)[0]\<close> on a non-empty string: the piece before the first
  separator character.\<close>

definition is_version_sep :: "char \<Rightarrow> bool" where
  "is_version_sep c = (c \<in> set ''><=!~;['')"

definition first_piece :: "string \<Rightarrow> string" where
  "first_piece l = takeWhile (\<lambda>c. \<not> is_version_sep c) l"

definition extractPythonDeps :: "string \<Rightarrow> string list" where
  "extractPythonDeps content =
     filter (\<lambda>l. l \<noteq> [])
       (map (\<lambda>l. trim (first_piece l))
         (filter (\<lambda>l. l \<noteq> [] \<and> \<not> startsWith l ''-'')
           (map (\<lambda>l. trim (strip_comment l)) (split_lines content))))"

text \<open>\<^verbatim>\<open>l.split('=')[0]\<close> and \<^verbatim>\<open>extractEnvVarNames\<close>.\<close>

definition extractEnvVarNames :: "string \<Rightarrow> string list" where
  "extractEnvVarNames content =
     filter (\<lambda>l. l \<noteq> [])
       (map (\<lambda>l. trim (takeWhile (\<lambda>c. c \<noteq> CHR ''='') l))
         (filter (\<lambda>l. l \<noteq> [] \<and> \<not> startsWith l ''#'')
           (map trim (split_lines content))))"

section \<open>Repository index\<close>

text \<open>The three sets and the directory queue that \<^verbatim>\<open>analyser\<close> builds in step 1
  (the local variables \<^verbatim>\<open>allPaths\<close>, \<^verbatim>\<open>allFileNames\<close>, \<^verbatim>\<open>extensions\<close>, \<^verbatim>\<open>dirs\<close>).\<close>

record FileIndex =
  allPaths :: "string set"
  allFileNames :: "string set"
  extensionSet :: "string set"
  dirs :: "string list"

definition empty_index :: FileIndex where
  "empty_index = \<lparr>allPaths = {}, allFileNames = {}, extensionSet = {}, dirs = []\<rparr>"

text \<open>Body of the loop over \<^verbatim>\<open>rootFiles\<close>.\<close>

definition add_root_entry :: "ProviderFile \<Rightarrow> FileIndex \<Rightarrow> FileIndex" where
  "add_root_entry f ix =
     (let ix1 = ix\<lparr>allPaths := insert (path f) (allPaths ix),
                    allFileNames := insert (name f) (allFileNames ix)\<rparr>
      in if isDirectory f then ix1\<lparr>dirs := dirs ix1 @ [name f]\<rparr>
         else (let dotIdx = lastIndexOf (name f) CHR ''.''
               in if 0 < dotIdx
                  then ix1\<lparr>extensionSet := insert (substring (name f) dotIdx) (extensionSet ix1)\<rparr>
                  else ix1))"

text \<open>Body of the loop over the children of one queued directory; a failed listing of
  a child directory is ignored.\<close>

definition add_child :: "Provider \<Rightarrow> ProviderFile \<Rightarrow> FileIndex \<Rightarrow> FileIndex" where
  "add_child prov c ix =
     (let ix1 = ix\<lparr>allPaths := insert (path c) (allPaths ix),
                    allFileNames := insert (name c) (allFileNames ix)\<rparr>
      in if isDirectory c
         then (case listFiles prov (path c) of
                 Inl e \<Rightarrow> ix1
               | Inr grandchildren \<Rightarrow>
                   fold (\<lambda>gc i. i\<lparr>allPaths := insert (path gc) (allPaths i)\<rparr>) grandchildren ix1)
         else ix1)"

text \<open>Body of the loop over \<^verbatim>\<open>dirs\<close>; a failed listing of the directory is ignored.\<close>

definition index_dir :: "Provider \<Rightarrow> string \<Rightarrow> FileIndex \<Rightarrow> FileIndex" where
  "index_dir prov dir ix =
     (case listFiles prov dir of
        Inl e \<Rightarrow> ix
      | Inr children \<Rightarrow> fold (add_child prov) children ix)"

text \<open>Step 1 of \<^verbatim>\<open>analyser\<close>. A failure of the root listing is not caught.\<close>

definition build_index :: "Provider \<Rightarrow> error + FileIndex" where
  "build_index prov =
     (case listFiles prov ''.'' of
        Inl e \<Rightarrow> Inl e
      | Inr rootFiles \<Rightarrow>
          (let ix = fold add_root_entry rootFiles empty_index
           in Inr (fold (index_dir prov) (dirs ix) ix)))"

section \<open>Content cache\<close>

text \<open>The mutable state of one scan: the map \<^verbatim>\<open>contentCache\<close> (a cached \<^verbatim>\<open>null\<close> is
  \<open>Some None\<close>), the sequence of paths on which \<^verbatim>\<open>provider.readFile\<close> has been
  invoked, oldest first, and the messages passed to \<^verbatim>\<open>consola.warn\<close>.\<close>

record ScanState =
  contentCache :: "string \<rightharpoonup> string option"
  readLog :: "string list"
  warnLog :: "string list"

definition init_state :: ScanState where
  "init_state = \<lparr>contentCache = Map.empty, readLog = [], warnLog = []\<rparr>"

definition readCached :: "Provider \<Rightarrow> string \<Rightarrow> ScanState \<Rightarrow> string option \<times> ScanState" where
  "readCached prov filePath st =
     (case contentCache st filePath of
        Some v \<Rightarrow> (v, st)
      | None \<Rightarrow>
          (case readFile prov filePath of
             Inr content \<Rightarrow>
               (Some content,
                st\<lparr>contentCache := (contentCache st)(filePath \<mapsto> Some content),
                   readLog := readLog st @ [filePath]\<rparr>)
           | Inl e \<Rightarrow>
               (None,
                st\<lparr>contentCache := (contentCache st)(filePath \<mapsto> None),
                   readLog := readLog st @ [filePath]\<rparr>)))"

section \<open>Rule evaluation\<close>

text \<open>The five blocks of \<^verbatim>\<open>evaluateRule\<close>. Each loop returns as soon as one of its
  tests succeeds. Only \<^verbatim>\<open>provider.exists\<close> can throw.\<close>

fun files_loop :: "Provider \<Rightarrow> string set \<Rightarrow> string set \<Rightarrow> string list \<Rightarrow> error + bool" where
  "files_loop prov rootNames allP [] = Inr False"
| "files_loop prov rootNames allP (f # fs) =
     (if f \<in> rootNames \<or> f \<in> allP then Inr True
      else (case exists_p prov f of
              Inl e \<Rightarrow> Inl e
            | Inr b \<Rightarrow> if b then Inr True else files_loop prov rootNames allP fs))"

fun ext_loop :: "string set \<Rightarrow> string list \<Rightarrow> bool" where
  "ext_loop exts [] = False"
| "ext_loop exts (ext # es) = (if ext \<in> exts then True else ext_loop exts es)"

fun content_test :: "pattern \<Rightarrow> string \<Rightarrow> bool" where
  "content_test (Str pat) content = includes_str content pat"
| "content_test (RegExp pat) content = pat content"

fun patterns_loop :: "pattern list \<Rightarrow> string \<Rightarrow> bool" where
  "patterns_loop [] content = False"
| "patterns_loop (pat # pats) content =
     (if content_test pat content then True else patterns_loop pats content)"

fun content_loop :: "Provider \<Rightarrow> ContentPattern list \<Rightarrow> ScanState \<Rightarrow> bool \<times> ScanState" where
  "content_loop prov [] st = (False, st)"
| "content_loop prov (cp # cps) st =
     (case readCached prov (cp_file cp) st of
        (None, st1) \<Rightarrow> content_loop prov cps st1
      | (Some content, st1) \<Rightarrow>
          if patterns_loop (cp_patterns cp) content then (True, st1)
          else content_loop prov cps st1)"

fun dep_test :: "pattern \<Rightarrow> string \<Rightarrow> bool" where
  "dep_test (Str nm) pkg = (pkg = nm)"
| "dep_test (RegExp nm) pkg = nm pkg"

fun pkg_loop :: "pattern \<Rightarrow> string list \<Rightarrow> bool" where
  "pkg_loop nm [] = False"
| "pkg_loop nm (pkg # pkgs) = (if dep_test nm pkg then True else pkg_loop nm pkgs)"

fun deps_loop :: "(DepType \<Rightarrow> string list) \<Rightarrow> RuleDependency list \<Rightarrow> bool" where
  "deps_loop depsMap [] = False"
| "deps_loop depsMap (dep # deps) =
     (let pkgList = depsMap (dep_type dep)
      in if pkgList = [] then deps_loop depsMap deps
         else if pkg_loop (dep_name dep) pkgList then True
         else deps_loop depsMap deps)"

fun dotenv_loop :: "string list \<Rightarrow> string list \<Rightarrow> bool" where
  "dotenv_loop envVarNames [] = False"
| "dotenv_loop envVarNames (pre # pres) =
     (if list_ex (\<lambda>v. startsWith v pre) envVarNames then True
      else dotenv_loop envVarNames pres)"

text \<open>The five guarded blocks of \<^verbatim>\<open>evaluateRule\<close>, one per strategy. \<^verbatim>\<open>m?.files\<close> is
  \<open>Option.bind m files\<close>: an absent \<^verbatim>\<open>match\<close> or an absent list skips the block, a
  present list (even an empty one) enters it.\<close>

definition files_block :: "Rule \<Rightarrow> Provider \<Rightarrow> string set \<Rightarrow> string set \<Rightarrow> error + bool" where
  "files_block rule prov rootNames allP =
     (case Option.bind (rule_match rule) files of
        None \<Rightarrow> Inr False
      | Some fs \<Rightarrow> files_loop prov rootNames allP fs)"

definition ext_block :: "Rule \<Rightarrow> string set \<Rightarrow> bool" where
  "ext_block rule exts =
     (case Option.bind (rule_match rule) extensions of
        None \<Rightarrow> False
      | Some es \<Rightarrow> ext_loop exts es)"

definition content_block :: "Rule \<Rightarrow> Provider \<Rightarrow> ScanState \<Rightarrow> bool \<times> ScanState" where
  "content_block rule prov st =
     (case Option.bind (rule_match rule) contentPatterns of
        None \<Rightarrow> (False, st)
      | Some cps \<Rightarrow> content_loop prov cps st)"

definition deps_block :: "Rule \<Rightarrow> (DepType \<Rightarrow> string list) \<Rightarrow> bool" where
  "deps_block rule depsMap =
     (case dependencies rule of
        None \<Rightarrow> False
      | Some deps \<Rightarrow> deps_loop depsMap deps)"

definition dotenv_block :: "Rule \<Rightarrow> string list \<Rightarrow> bool" where
  "dotenv_block rule envVarNames =
     (case dotenv rule of
        None \<Rightarrow> False
      | Some pres \<Rightarrow> envVarNames \<noteq> [] \<and> dotenv_loop envVarNames pres)"

text \<open>\<^verbatim>\<open>evaluateRule\<close>, with its arguments in the order of the source; \<^verbatim>\<open>readCached\<close>
  is the closure over the provider and the scan state. A value thrown by
  \<^verbatim>\<open>provider.exists\<close> leaves the function at once.\<close>

definition evaluateRule ::
  "Rule \<Rightarrow> string set \<Rightarrow> string set \<Rightarrow> string set \<Rightarrow> Provider \<Rightarrow>
   (DepType \<Rightarrow> string list) \<Rightarrow> string list \<Rightarrow> ScanState \<Rightarrow> (error + bool) \<times> ScanState" where
  "evaluateRule rule allP exts rootNames prov depsMap envVarNames st =
     (case files_block rule prov rootNames allP of
        Inl e \<Rightarrow> (Inl e, st)
      | Inr found \<Rightarrow>
          if found then (Inr True, st)
          else if ext_block rule exts then (Inr True, st)
          else (case content_block rule prov st of
                  (hit, st1) \<Rightarrow>
                    if hit then (Inr True, st1)
                    else if deps_block rule depsMap then (Inr True, st1)
                    else if dotenv_block rule envVarNames then (Inr True, st1)
                    else (Inr False, st1)))"

section \<open>The analyser\<close>

text \<open>The manifest extractors whose bodies rest on \<^verbatim>\<open>JSON.parse\<close> or on a search with
  a regular expression are parameters of the model. In the source each of them is a
  pure function from the text of a file to a list of names that never throws, so every
  statement below holds for the source's own extractors. \<open>matchPyprojectDeps\<close> is the
  first capture group of the match against \<^verbatim>\<open>pyproject.toml\<close> (absent when there is
  no match) and \<open>matchDockerfileFrom\<close> lists the first capture group of every
  \<^verbatim>\<open>FROM\<close> match in \<^verbatim>\<open>Dockerfile\<close>.\<close>

record Extractors =
  extractNpmDeps :: "string \<Rightarrow> string list"
  extractRubyDeps :: "string \<Rightarrow> string list"
  extractGoDeps :: "string \<Rightarrow> string list"
  extractCargoDeps :: "string \<Rightarrow> string list"
  extractComposerDeps :: "string \<Rightarrow> string list"
  extractDockerImages :: "string \<Rightarrow> string list"
  matchPyprojectDeps :: "string \<Rightarrow> string option"
  matchDockerfileFrom :: "string \<Rightarrow> string list"

text \<open>\<^verbatim>\<open>const c = await readCached(f); if (c) depsMap.t = extractor(c)\<close> and the variant
  with \<^verbatim>\<open>depsMap.t.push(...extractor(c))\<close>. The test \<^verbatim>\<open>if (c)\<close> fails for \<^verbatim>\<open>null\<close> and
  for the empty string.\<close>

definition read_assign ::
  "Provider \<Rightarrow> string \<Rightarrow> DepType \<Rightarrow> (string \<Rightarrow> string list) \<Rightarrow>
   (DepType \<Rightarrow> string list) \<times> ScanState \<Rightarrow> (DepType \<Rightarrow> string list) \<times> ScanState" where
  "read_assign prov f ty extractor acc =
     (case acc of (depsMap, st) \<Rightarrow>
        (case readCached prov f st of
           (None, st1) \<Rightarrow> (depsMap, st1)
         | (Some c, st1) \<Rightarrow>
             if c \<noteq> [] then (depsMap(ty := extractor c), st1) else (depsMap, st1)))"

definition read_push ::
  "Provider \<Rightarrow> string \<Rightarrow> DepType \<Rightarrow> (string \<Rightarrow> string list) \<Rightarrow>
   (DepType \<Rightarrow> string list) \<times> ScanState \<Rightarrow> (DepType \<Rightarrow> string list) \<times> ScanState" where
  "read_push prov f ty extractor acc =
     (case acc of (depsMap, st) \<Rightarrow>
        (case readCached prov f st of
           (None, st1) \<Rightarrow> (depsMap, st1)
         | (Some c, st1) \<Rightarrow>
             if c \<noteq> [] then (depsMap(ty := depsMap ty @ extractor c), st1) else (depsMap, st1)))"

text \<open>Step 3 of \<^verbatim>\<open>analyser\<close>: the dependency table.\<close>

definition extract_deps ::
  "Extractors \<Rightarrow> Provider \<Rightarrow> ScanState \<Rightarrow> (DepType \<Rightarrow> string list) \<times> ScanState" where
  "extract_deps ex prov st =
     (let a0 = (\<lambda>ty. [], st);
          a1 = read_assign prov ''package.json'' npm (extractNpmDeps ex) a0;
          a2 = fold (\<lambda>f. read_push prov f python extractPythonDeps)
                 [''requirements.txt'', ''requirements-dev.txt'', ''requirements-base.txt''] a1;
          a3 = read_push prov ''pyproject.toml'' python
                 (\<lambda>pyproject. case matchPyprojectDeps ex pyproject of
                    None \<Rightarrow> []
                  | Some depSection \<Rightarrow>
                      extractPythonDeps (filter (\<lambda>c. c \<noteq> CHR 0x22) depSection)) a2;
          a4 = read_assign prov ''Gemfile'' ruby (extractRubyDeps ex) a3;
          a5 = read_assign prov ''go.mod'' golang (extractGoDeps ex) a4;
          a6 = read_assign prov ''Cargo.toml'' rust (extractCargoDeps ex) a5;
          a7 = read_assign prov ''composer.json'' php (extractComposerDeps ex) a6;
          a8 = fold (\<lambda>f. read_push prov f docker (extractDockerImages ex))
                 [''docker-compose.yml'', ''docker-compose.yaml'', ''compose.yml'', ''compose.yaml''] a7
      in read_push prov ''Dockerfile'' docker
           (\<lambda>dockerfile. map (takeWhile (\<lambda>c. c \<noteq> CHR '':''))
                            (matchDockerfileFrom ex dockerfile)) a8)"

text \<open>Step 4 of \<^verbatim>\<open>analyser\<close>: the names of the environment variables.\<close>

definition read_env :: "Provider \<Rightarrow> string \<Rightarrow> string list \<times> ScanState \<Rightarrow> string list \<times> ScanState" where
  "read_env prov f acc =
     (case acc of (envVarNames, st) \<Rightarrow>
        (case readCached prov f st of
           (None, st1) \<Rightarrow> (envVarNames, st1)
         | (Some c, st1) \<Rightarrow>
             if c \<noteq> [] then (envVarNames @ extractEnvVarNames c, st1) else (envVarNames, st1)))"

definition extract_env :: "Provider \<Rightarrow> ScanState \<Rightarrow> string list \<times> ScanState" where
  "extract_env prov st =
     fold (read_env prov)
       [''.env'', ''.env.local'', ''.env.example'', ''.env.development'',
        ''.env.production'', ''.env.test''] ([], st)"

text \<open>Step 5: the loop over the catalog with its \<^verbatim>\<open>try\<close>/\<^verbatim>\<open>catch\<close>. The catch block
  builds the text of the warning with \<^verbatim>\<open>${err}\<close> and passes it to \<^verbatim>\<open>consola.warn\<close>; it
  stands outside any \<^verbatim>\<open>try\<close>, so when the conversion of the caught value throws, that
  value leaves the loop and the analyser. Otherwise the loop goes on with the next rule.\<close>

definition node_of :: "Rule \<Rightarrow> PayloadNode" where
  "node_of rule = \<lparr>node_name = rule_name rule, node_type = rule_type rule\<rparr>"

definition warning_of :: "Rule \<Rightarrow> string \<Rightarrow> string" where
  "warning_of rule msg =
     ''Rule '' @ [CHR 0x22] @ rule_id rule @ [CHR 0x22] @ '' threw: '' @ msg"

fun rules_loop ::
  "string set \<Rightarrow> string set \<Rightarrow> string set \<Rightarrow> Provider \<Rightarrow> (DepType \<Rightarrow> string list) \<Rightarrow>
   string list \<Rightarrow> Rule list \<Rightarrow> PayloadNode list \<Rightarrow> ScanState \<Rightarrow>
   (error + PayloadNode list) \<times> ScanState" where
  "rules_loop allP exts names prov depsMap envVarNames [] matched st = (Inr matched, st)"
| "rules_loop allP exts names prov depsMap envVarNames (rule # rules) matched st =
     (case evaluateRule rule allP exts names prov depsMap envVarNames st of
        (Inr b, st1) \<Rightarrow>
          rules_loop allP exts names prov depsMap envVarNames rules
            (if b then matched @ [node_of rule] else matched) st1
      | (Inl err, st1) \<Rightarrow>
          (case err_text err of
             Inl e \<Rightarrow> (Inl e, st1)
           | Inr msg \<Rightarrow>
               rules_loop allP exts names prov depsMap envVarNames rules matched
                 (st1\<lparr>warnLog := warnLog st1 @ [warning_of rule msg]\<rparr>)))"

text \<open>\<^verbatim>\<open>analyser\<close>, with the catalog \<^verbatim>\<open>rules\<close> as an argument. The result is paired
  with the final scan state.\<close>

definition analyser :: "Extractors \<Rightarrow> Rule list \<Rightarrow> Provider \<Rightarrow> (error + Payload) \<times> ScanState" where
  "analyser ex rules prov =
     (case build_index prov of
        Inl e \<Rightarrow> (Inl e, init_state)
      | Inr ix \<Rightarrow>
          (case extract_deps ex prov init_state of
             (depsMap, st1) \<Rightarrow>
               (case extract_env prov st1 of
                  (envVarNames, st2) \<Rightarrow>
                    (case rules_loop (allPaths ix) (extensionSet ix) (allFileNames ix) prov
                            depsMap envVarNames rules [] st2 of
                       (Inl e, st3) \<Rightarrow> (Inl e, st3)
                     | (Inr matched, st3) \<Rightarrow> (Inr \<lparr>childs = matched\<rparr>, st3)))))"

section \<open>Notions used in the statements\<close>

text \<open>What one attempt to read a path gives: the text, or absent on any failure.\<close>

definition read_pure :: "Provider \<Rightarrow> string \<Rightarrow> string option" where
  "read_pure prov p = (case readFile prov p of Inr content \<Rightarrow> Some content | Inl e \<Rightarrow> None)"

text \<open>Two invariants of the scan state: every cached value is what the provider gives
  for its path, and the cached paths are exactly the paths read, each read once.\<close>

definition cache_ok :: "Provider \<Rightarrow> ScanState \<Rightarrow> bool" where
  "cache_ok prov st = (\<forall>p v. contentCache st p = Some v \<longrightarrow> v = read_pure prov p)"

definition log_inv :: "ScanState \<Rightarrow> bool" where
  "log_inv st = (dom (contentCache st) = set (readLog st) \<and> distinct (readLog st))"

text \<open>The five strategies in the words of the specification. The content strategy reads
  its target through the content cache of the current state.\<close>

definition marker_files :: "Rule \<Rightarrow> string list" where
  "marker_files rule = (case Option.bind (rule_match rule) files of None \<Rightarrow> [] | Some fs \<Rightarrow> fs)"

definition marker_satisfied :: "Rule \<Rightarrow> Provider \<Rightarrow> string set \<Rightarrow> string set \<Rightarrow> bool" where
  "marker_satisfied rule prov rootNames allP =
     (\<exists>f\<in>set (marker_files rule). f \<in> rootNames \<or> f \<in> allP \<or> exists_p prov f = Inr True)"

definition extension_satisfied :: "Rule \<Rightarrow> string set \<Rightarrow> bool" where
  "extension_satisfied rule exts =
     (\<exists>es. Option.bind (rule_match rule) extensions = Some es \<and> (\<exists>ext\<in>set es. ext \<in> exts))"

definition content_satisfied :: "Rule \<Rightarrow> Provider \<Rightarrow> ScanState \<Rightarrow> bool" where
  "content_satisfied rule prov st =
     (\<exists>cps. Option.bind (rule_match rule) contentPatterns = Some cps \<and>
        (\<exists>cp\<in>set cps. \<exists>content. fst (readCached prov (cp_file cp) st) = Some content \<and>
           (\<exists>pat\<in>set (cp_patterns cp). content_test pat content)))"

definition dependency_satisfied :: "Rule \<Rightarrow> (DepType \<Rightarrow> string list) \<Rightarrow> bool" where
  "dependency_satisfied rule depsMap =
     (\<exists>deps. dependencies rule = Some deps \<and>
        (\<exists>dep\<in>set deps.
           (case dep_name dep of
              Str nm \<Rightarrow> nm \<in> set (depsMap (dep_type dep))
            | RegExp re \<Rightarrow> (\<exists>pkg\<in>set (depsMap (dep_type dep)). re pkg))))"

definition dotenv_satisfied :: "Rule \<Rightarrow> string list \<Rightarrow> bool" where
  "dotenv_satisfied rule envVarNames =
     (\<exists>pres. dotenv rule = Some pres \<and> envVarNames \<noteq> [] \<and>
        (\<exists>v\<in>set envVarNames. \<exists>pre\<in>set pres. prefix pre v))"

text \<open>A rule cut down to its first strategies: the later ones are removed.\<close>

definition only_files :: "Rule \<Rightarrow> Rule" where
  "only_files rule =
     rule\<lparr>rule_match :=
            map_option (\<lambda>m. m\<lparr>extensions := None, contentPatterns := None\<rparr>) (rule_match rule),
          dependencies := None, dotenv := None\<rparr>"

definition upto_extensions :: "Rule \<Rightarrow> Rule" where
  "upto_extensions rule =
     rule\<lparr>rule_match := map_option (\<lambda>m. m\<lparr>contentPatterns := None\<rparr>) (rule_match rule),
          dependencies := None, dotenv := None\<rparr>"

definition upto_content :: "Rule \<Rightarrow> Rule" where
  "upto_content rule = rule\<lparr>dependencies := None, dotenv := None\<rparr>"

definition upto_dependencies :: "Rule \<Rightarrow> Rule" where
  "upto_dependencies rule = rule\<lparr>dotenv := None\<rparr>"

text \<open>A name has the extension \<open>ext\<close>: it ends in \<open>ext\<close> with something before it, and
  \<open>ext\<close> starts with the only dot it contains (so that dot is the last one of the name
  and not its first character).\<close>

definition has_extension :: "string \<Rightarrow> string \<Rightarrow> bool" where
  "has_extension nm ext =
     (ext \<noteq> [] \<and> hd ext = CHR ''.'' \<and> CHR ''.'' \<notin> set (tl ext) \<and>
      length ext < length nm \<and> drop (length nm - length ext) nm = ext)"

text \<open>The names listed at depth 2: the children of every root entry that is a
  directory, where the listing of the directory succeeds.\<close>

definition child_names :: "Provider \<Rightarrow> ProviderFile list \<Rightarrow> string set" where
  "child_names prov rootFiles =
     (\<Union>d\<in>set (filter isDirectory rootFiles).
        (case listFiles prov (name d) of Inl e \<Rightarrow> {} | Inr children \<Rightarrow> name ` set children))"

text \<open>The state in which the loop over the catalog starts, and the value that
  \<^verbatim>\<open>evaluateRule\<close> returns for a rule in that state.\<close>

definition prepare :: "Extractors \<Rightarrow> Provider \<Rightarrow> (DepType \<Rightarrow> string list) \<times> string list \<times> ScanState" where
  "prepare ex prov =
     (case extract_deps ex prov init_state of
        (depsMap, st1) \<Rightarrow>
          (case extract_env prov st1 of (envVarNames, st2) \<Rightarrow> (depsMap, envVarNames, st2)))"

definition evaluation_of :: "Extractors \<Rightarrow> Provider \<Rightarrow> FileIndex \<Rightarrow> Rule \<Rightarrow> error + bool" where
  "evaluation_of ex prov ix rule =
     (case prepare ex prov of
        (depsMap, envVarNames, st) \<Rightarrow>
          fst (evaluateRule rule (allPaths ix) (extensionSet ix) (allFileNames ix) prov
                 depsMap envVarNames st))"

text \<open>What the catch block does with the outcome of one rule: the value that leaves the
  loop when the text of the warning cannot be built, and the warnings written otherwise.
  \<open>first_abort\<close> is the value that leaves the loop at the first rule of a catalog that
  has one.\<close>

definition abort_of :: "error + bool \<Rightarrow> error option" where
  "abort_of v =
     (case v of
        Inr b \<Rightarrow> None
      | Inl err \<Rightarrow> (case err_text err of Inl e \<Rightarrow> Some e | Inr msg \<Rightarrow> None))"

fun first_abort :: "(Rule \<Rightarrow> error + bool) \<Rightarrow> Rule list \<Rightarrow> error option" where
  "first_abort ev [] = None"
| "first_abort ev (r # rs) =
     (case abort_of (ev r) of Some e \<Rightarrow> Some e | None \<Rightarrow> first_abort ev rs)"

definition warnings_of :: "(Rule \<Rightarrow> error + bool) \<Rightarrow> Rule list \<Rightarrow> string list" where
  "warnings_of ev rules =
     concat (map (\<lambda>rule. case ev rule of
                           Inl err \<Rightarrow>
                             (case err_text err of
                                Inl e \<Rightarrow> []
                              | Inr msg \<Rightarrow> [warning_of rule msg])
                         | Inr b \<Rightarrow> []) rules)"

definition warnings_for :: "Extractors \<Rightarrow> Provider \<Rightarrow> FileIndex \<Rightarrow> Rule list \<Rightarrow> string list" where
  "warnings_for ex prov ix rules = warnings_of (evaluation_of ex prov ix) rules"

text \<open>The requirement-list extractor in the words of its description: a comment runs
  from the first \<open>#\<close> of a line to the end of the line.\<close>

definition line_name :: "string \<Rightarrow> string option" where
  "line_name l =
     (let body = trim (takeWhile (\<lambda>c. c \<noteq> CHR ''#'') l)
      in if body = [] \<or> hd body = CHR ''-'' then None
         else (let nm = trim (takeWhile (\<lambda>c. c \<notin> set ''><=!~;['') body)
               in if nm = [] then None else Some nm))"

definition requirement_names :: "string \<Rightarrow> string list" where
  "requirement_names content = List.map_filter line_name (split_lines content)"

section \<open>Example inputs\<close>

text \<open>A small repository: \<^verbatim>\<open>app.tsx\<close>, \<^verbatim>\<open>requirements.txt\<close> and the directory \<^verbatim>\<open>src\<close>
  at the root, \<^verbatim>\<open>src/deep.txt\<close> and the directory \<^verbatim>\<open>src/lib\<close> below it, and
  \<^verbatim>\<open>src/lib/x.py\<close> at depth 3. The existence check throws on the path \<^verbatim>\<open>boom\<close>.\<close>

definition demo_provider :: Provider where
  "demo_provider =
     \<lparr>listFiles = (\<lambda>dir.
        if dir = ''.'' then
          Inr [\<lparr>path = ''app.tsx'', name = ''app.tsx'', isDirectory = False\<rparr>,
               \<lparr>path = ''requirements.txt'', name = ''requirements.txt'', isDirectory = False\<rparr>,
               \<lparr>path = ''src'', name = ''src'', isDirectory = True\<rparr>]
        else if dir = ''src'' then
          Inr [\<lparr>path = ''src/deep.txt'', name = ''deep.txt'', isDirectory = False\<rparr>,
               \<lparr>path = ''src/lib'', name = ''lib'', isDirectory = True\<rparr>]
        else if dir = ''src/lib'' then
          Inr [\<lparr>path = ''src/lib/x.py'', name = ''x.py'', isDirectory = False\<rparr>]
        else Inr []),
      readFile = (\<lambda>p.
        if p = ''requirements.txt'' then Inr ''django==4.2''
        else if p = ''.env'' then Inr ''POSTGRES_URL=x''
        else if p = ''app.tsx'' then Inr ''import React''
        else Inl (Thrown ''ENOENT'')),
      exists_p = (\<lambda>p.
        if p = ''boom'' then Inl (Thrown ''EIO'')
        else Inr (p \<in> {''app.tsx'', ''requirements.txt'', ''src'', ''src/deep.txt'',
                       ''src/lib'', ''src/lib/x.py''}))\<rparr>"

text \<open>The same repository behind a provider whose existence check rejects with a
  \<^verbatim>\<open>Symbol\<close> on the path \<^verbatim>\<open>boom\<close>.\<close>

definition symbol_provider :: Provider where
  "symbol_provider =
     demo_provider\<lparr>exists_p := (\<lambda>p.
        if p = ''boom''
        then Inl (Unprintable (Thrown ''TypeError: Cannot convert a Symbol value to a string''))
        else exists_p demo_provider p)\<rparr>"

text \<open>The index that step 1 builds for this repository.\<close>

definition demo_index :: FileIndex where
  "demo_index =
     \<lparr>allPaths = {''src/lib/x.py'', ''src/lib'', ''src/deep.txt'', ''src'',
                  ''requirements.txt'', ''app.tsx''},
      allFileNames = {''lib'', ''deep.txt'', ''src'', ''requirements.txt'', ''app.tsx''},
      extensionSet = {''.txt'', ''.tsx''},
      dirs = [''src'']\<rparr>"

text \<open>A file system on which nothing exists, as seen from a repository root that is
  not there.\<close>

definition missing_fs :: FileSystem where
  "missing_fs =
     \<lparr>pathExists = (\<lambda>p. False),
      readdir = (\<lambda>p. Inl (Thrown ''ENOENT'')),
      fs_readFile = (\<lambda>p. Inl (Thrown ''ENOENT'')),
      resolve = (\<lambda>r p. r @ ''/'' @ p),
      posix_join = (\<lambda>a b. if a = [] then b else a @ ''/'' @ b)\<rparr>"

text \<open>A tree source that is entirely unavailable.\<close>

definition absent_provider :: Provider where
  "absent_provider =
     \<lparr>listFiles = (\<lambda>dir. Inr []),
      readFile = (\<lambda>p. Inl (Thrown ''ENOENT'')),
      exists_p = (\<lambda>p. Inr False)\<rparr>"

definition demo_extractors :: Extractors where
  "demo_extractors =
     \<lparr>extractNpmDeps = (\<lambda>c. []), extractRubyDeps = (\<lambda>c. []), extractGoDeps = (\<lambda>c. []),
      extractCargoDeps = (\<lambda>c. []), extractComposerDeps = (\<lambda>c. []),
      extractDockerImages = (\<lambda>c. []), matchPyprojectDeps = (\<lambda>c. None),
      matchDockerfileFrom = (\<lambda>c. [])\<rparr>"

definition blank_rule :: Rule where
  "blank_rule =
     \<lparr>rule_id = ''blank'', rule_name = ''Blank'', rule_type = tool, rule_match = None,
      dependencies = None, dotenv = None\<rparr>"

definition no_match :: RuleMatch where
  "no_match = \<lparr>files = None, extensions = None, contentPatterns = None\<rparr>"

definition tsx_rule :: Rule where
  "tsx_rule = blank_rule\<lparr>rule_id := ''typescript'', rule_name := ''TypeScript'',
     rule_type := language, rule_match := Some (no_match\<lparr>extensions := Some [''.ts'', ''.tsx'']\<rparr>)\<rparr>"

definition py_rule :: Rule where
  "py_rule = blank_rule\<lparr>rule_id := ''python'', rule_name := ''Python'',
     rule_type := language, rule_match := Some (no_match\<lparr>extensions := Some [''.py'']\<rparr>)\<rparr>"

definition django_rule :: Rule where
  "django_rule = blank_rule\<lparr>rule_id := ''django'', rule_name := ''Django'',
     rule_type := framework,
     dependencies := Some [\<lparr>dep_type = python, dep_name = Str ''django''\<rparr>]\<rparr>"

definition Django_rule :: Rule where
  "Django_rule = blank_rule\<lparr>rule_id := ''django-cap'', rule_name := ''Django'',
     rule_type := framework,
     dependencies := Some [\<lparr>dep_type = python, dep_name = Str ''Django''\<rparr>]\<rparr>"

definition postgres_rule :: Rule where
  "postgres_rule = blank_rule\<lparr>rule_id := ''postgresql'', rule_name := ''PostgreSQL'',
     rule_type := db, dotenv := Some [''POSTGRES_'']\<rparr>"

definition boom_rule :: Rule where
  "boom_rule = blank_rule\<lparr>rule_id := ''boom'', rule_name := ''Boom'',
     rule_match := Some (no_match\<lparr>files := Some [''boom'']\<rparr>)\<rparr>"

definition deep_rule :: Rule where
  "deep_rule = blank_rule\<lparr>rule_id := ''deep'', rule_name := ''Deep'',
     rule_match := Some (no_match\<lparr>files := Some [''deep.txt'']\<rparr>)\<rparr>"

definition react_rule :: Rule where
  "react_rule = blank_rule\<lparr>rule_id := ''react'', rule_name := ''React'',
     rule_type := ui_framework,
     rule_match := Some \<lparr>files = Some [''react.config.js''], extensions = Some [''.jsx''],
        contentPatterns = Some [\<lparr>cp_file = ''app.tsx'', cp_patterns = [Str ''React'']\<rparr>]\<rparr>,
     dependencies := Some [\<lparr>dep_type = npm, dep_name = Str ''react''\<rparr>],
     dotenv := Some [''REACT_APP_'']\<rparr>"

section \<open>Properties\<close>

subsection \<open>Loops as existence statements\<close>

lemma startsWith_prefix: "startsWith s p \<longleftrightarrow> prefix p s"
  unfolding startsWith_def
  by (metis append_take_drop_id prefix_def append_eq_conv_conj)

lemma includes_str_sublist: "includes_str s p \<longleftrightarrow> sublist p s"
  by (induction s) (auto simp: startsWith_prefix sublist_Cons_right)

lemma ext_loop_iff: "ext_loop exts es \<longleftrightarrow> (\<exists>ext\<in>set es. ext \<in> exts)"
  by (induction es) auto

lemma patterns_loop_iff:
  "patterns_loop pats content \<longleftrightarrow> (\<exists>pat\<in>set pats. content_test pat content)"
  by (induction pats) auto

lemma dep_test_cases:
  "dep_test nm pkg = (case nm of Str s \<Rightarrow> pkg = s | RegExp re \<Rightarrow> re pkg)"
  by (cases nm) auto

lemma pkg_loop_iff: "pkg_loop nm pkgs \<longleftrightarrow> (\<exists>pkg\<in>set pkgs. dep_test nm pkg)"
  by (induction pkgs) auto

lemma pkg_loop_cases:
  "pkg_loop nm pkgs =
     (case nm of Str s \<Rightarrow> s \<in> set pkgs | RegExp re \<Rightarrow> (\<exists>pkg\<in>set pkgs. re pkg))"
  by (cases nm) (auto simp: pkg_loop_iff)

lemma deps_loop_iff:
  "deps_loop depsMap deps \<longleftrightarrow>
     (\<exists>dep\<in>set deps. pkg_loop (dep_name dep) (depsMap (dep_type dep)))"
  by (induction deps) (auto simp: Let_def)

lemma dotenv_loop_iff:
  "dotenv_loop env pres \<longleftrightarrow> (\<exists>v\<in>set env. \<exists>pre\<in>set pres. prefix pre v)"
  by (induction pres) (auto simp: list_ex_iff startsWith_prefix)

lemma files_loop_no_throw:
  "\<forall>f\<in>set fs. \<forall>e. exists_p prov f \<noteq> Inl e \<Longrightarrow>
   files_loop prov names allP fs =
     Inr (\<exists>f\<in>set fs. f \<in> names \<or> f \<in> allP \<or> exists_p prov f = Inr True)"
  by (induction fs) (auto split: sum.splits)

lemma files_loop_found:
  "\<exists>f\<in>set fs. f \<in> names \<or> f \<in> allP \<or> exists_p prov f = Inr True \<Longrightarrow>
   files_loop prov names allP fs \<noteq> Inr False"
  by (induction fs) (auto split: sum.splits)

subsection \<open>The five blocks\<close>

lemma files_block_no_throw:
  "\<forall>f\<in>set (marker_files rule). \<forall>e. exists_p prov f \<noteq> Inl e \<Longrightarrow>
   files_block rule prov names allP = Inr (marker_satisfied rule prov names allP)"
  by (auto simp: files_block_def marker_files_def marker_satisfied_def files_loop_no_throw
           split: option.splits)

lemma files_block_found:
  "marker_satisfied rule prov names allP \<Longrightarrow> files_block rule prov names allP \<noteq> Inr False"
  using files_loop_found [of "marker_files rule" names allP prov]
  by (auto simp: files_block_def marker_files_def marker_satisfied_def split: option.splits)

lemma ext_block_iff: "ext_block rule exts \<longleftrightarrow> extension_satisfied rule exts"
  by (auto simp: ext_block_def extension_satisfied_def ext_loop_iff split: option.splits)

lemma deps_block_iff: "deps_block rule depsMap \<longleftrightarrow> dependency_satisfied rule depsMap"
  by (auto simp: deps_block_def dependency_satisfied_def deps_loop_iff pkg_loop_cases
           split: option.splits)

lemma dotenv_block_iff: "dotenv_block rule env \<longleftrightarrow> dotenv_satisfied rule env"
  by (auto simp: dotenv_block_def dotenv_satisfied_def dotenv_loop_iff split: option.splits)

subsection \<open>The content cache\<close>

lemma readCached_again:
  "fst (readCached prov q (snd (readCached prov p st))) = fst (readCached prov q st)"
  by (auto simp: readCached_def split: option.splits sum.splits)

lemma content_loop_value_gen:
  "(\<And>q. fst (readCached prov q st) = rd q) \<Longrightarrow>
   fst (content_loop prov cps st) =
     (\<exists>cp\<in>set cps. \<exists>content. rd (cp_file cp) = Some content \<and>
        (\<exists>pat\<in>set (cp_patterns cp). content_test pat content))"
proof (induction cps arbitrary: st)
  case Nil
  then show ?case by simp
next
  case (Cons cp cps)
  obtain v st1 where r: "readCached prov (cp_file cp) st = (v, st1)"
    by (cases "readCached prov (cp_file cp) st")
  have v: "rd (cp_file cp) = v"
    using Cons.prems [of "cp_file cp"] r by simp
  have "\<And>q. fst (readCached prov q st1) = rd q"
    using readCached_again [of prov _ "cp_file cp" st] r Cons.prems by simp
  then have ih: "fst (content_loop prov cps st1) =
     (\<exists>cp\<in>set cps. \<exists>content. rd (cp_file cp) = Some content \<and>
        (\<exists>pat\<in>set (cp_patterns cp). content_test pat content))"
    by (rule Cons.IH)
  show ?case
    using ih by (cases v) (auto simp: r v patterns_loop_iff)
qed

lemma content_block_iff:
  "fst (content_block rule prov st) \<longleftrightarrow> content_satisfied rule prov st"
  using content_loop_value_gen [of prov st "\<lambda>q. fst (readCached prov q st)"]
  by (auto simp: content_block_def content_satisfied_def split: option.splits)


lemma FSProvider_exists: "exists_p (FSProvider fs root) p = Inr (pathExists fs (resolve fs root p))"
  by (simp add: FSProvider_def)

lemma blocks_only_files:
  "files_block (only_files rule) prov names allP = files_block rule prov names allP"
  "ext_block (only_files rule) exts = False"
  "content_block (only_files rule) prov st = (False, st)"
  "deps_block (only_files rule) depsMap = False"
  "dotenv_block (only_files rule) env = False"
  by (cases "rule_match rule";
      simp add: only_files_def files_block_def ext_block_def content_block_def
        deps_block_def dotenv_block_def)+

lemma blocks_upto_extensions:
  "files_block (upto_extensions rule) prov names allP = files_block rule prov names allP"
  "ext_block (upto_extensions rule) exts = ext_block rule exts"
  "content_block (upto_extensions rule) prov st = (False, st)"
  "deps_block (upto_extensions rule) depsMap = False"
  "dotenv_block (upto_extensions rule) env = False"
  by (cases "rule_match rule";
      simp add: upto_extensions_def files_block_def ext_block_def content_block_def
        deps_block_def dotenv_block_def)+

lemma blocks_upto_content:
  "files_block (upto_content rule) prov names allP = files_block rule prov names allP"
  "ext_block (upto_content rule) exts = ext_block rule exts"
  "content_block (upto_content rule) prov st = content_block rule prov st"
  "deps_block (upto_content rule) depsMap = False"
  "dotenv_block (upto_content rule) env = False"
  by (simp_all add: upto_content_def files_block_def ext_block_def content_block_def
        deps_block_def dotenv_block_def)

lemma blocks_upto_dependencies:
  "files_block (upto_dependencies rule) prov names allP = files_block rule prov names allP"
  "ext_block (upto_dependencies rule) exts = ext_block rule exts"
  "content_block (upto_dependencies rule) prov st = content_block rule prov st"
  "deps_block (upto_dependencies rule) depsMap = deps_block rule depsMap"
  "dotenv_block (upto_dependencies rule) env = False"
  by (simp_all add: upto_dependencies_def files_block_def ext_block_def content_block_def
        deps_block_def dotenv_block_def)

lemma evaluateRule_value:
  assumes "\<forall>f\<in>set (marker_files rule). \<forall>e. exists_p prov f \<noteq> Inl e"
  shows "fst (evaluateRule rule allP exts names prov depsMap env st) =
     Inr (marker_satisfied rule prov names allP \<or> extension_satisfied rule exts \<or>
          content_satisfied rule prov st \<or> dependency_satisfied rule depsMap \<or>
          dotenv_satisfied rule env)"
  unfolding evaluateRule_def files_block_no_throw [OF assms]
  using content_block_iff [of rule prov st]
  by (cases "content_block rule prov st")
     (simp add: ext_block_iff deps_block_iff dotenv_block_iff)

lemma evaluateRule_early:
  assumes "\<forall>f\<in>set (marker_files rule). \<forall>e. exists_p prov f \<noteq> Inl e"
    and "marker_satisfied rule prov names allP \<or> extension_satisfied rule exts"
  shows "evaluateRule rule allP exts names prov depsMap env st = (Inr True, st)"
  unfolding evaluateRule_def files_block_no_throw [OF assms(1)]
  using assms(2) by (auto simp: ext_block_iff)

lemma evaluateRule_cut_files:
  assumes "marker_satisfied rule prov names allP"
  shows "evaluateRule rule allP exts names prov depsMap env st =
         evaluateRule (only_files rule) allP exts names prov depsMap env st"
  using files_block_found [OF assms]
  by (cases "files_block rule prov names allP")
     (auto simp: evaluateRule_def blocks_only_files)

lemma evaluateRule_cut_extensions:
  assumes "extension_satisfied rule exts"
  shows "evaluateRule rule allP exts names prov depsMap env st =
         evaluateRule (upto_extensions rule) allP exts names prov depsMap env st"
proof -
  have "ext_block rule exts"
    using assms by (simp add: ext_block_iff)
  then show ?thesis
    by (cases "files_block rule prov names allP")
       (auto simp: evaluateRule_def blocks_upto_extensions)
qed

lemma evaluateRule_cut_content:
  assumes "content_satisfied rule prov st"
  shows "evaluateRule rule allP exts names prov depsMap env st =
         evaluateRule (upto_content rule) allP exts names prov depsMap env st"
  using assms content_block_iff [of rule prov st]
  by (cases "files_block rule prov names allP"; cases "content_block rule prov st")
     (auto simp: evaluateRule_def blocks_upto_content)

lemma evaluateRule_cut_dependencies:
  assumes "dependency_satisfied rule depsMap"
  shows "evaluateRule rule allP exts names prov depsMap env st =
         evaluateRule (upto_dependencies rule) allP exts names prov depsMap env st"
proof -
  have "deps_block rule depsMap"
    using assms by (simp add: deps_block_iff)
  then show ?thesis
    by (cases "files_block rule prov names allP"; cases "content_block rule prov st")
       (auto simp: evaluateRule_def blocks_upto_dependencies)
qed

lemma evaluateRule_no_strategy:
  assumes "rule_match rule = None" "dependencies rule = None" "dotenv rule = None"
  shows "evaluateRule rule allP exts names prov depsMap env st = (Inr False, st)"
  using assms
  by (simp add: evaluateRule_def files_block_def ext_block_def content_block_def
        deps_block_def dotenv_block_def)

text \<open>
  Claim C1. Rule evaluation applies the strategies in the fixed order marker files,
  extensions, content patterns, dependencies, dotenv prefixes. With the provider backed by
  the local file system, and with any provider whose existence check returns a boolean
  for every marker file of the rule, the value returned is true exactly when one of the
  five strategies is satisfied and false otherwise; when the marker or the extension
  strategy is satisfied no file content is read and the scan state is left as it was.
  With every provider a satisfied strategy makes the later ones irrelevant: the result
  and the final state are those of the same rule with all later strategies removed. A rule
  that declares no strategy at all returns false and leaves the state unchanged.
\<close>

theorem evaluateRule_first_satisfied:
  "fst (evaluateRule rule allP exts names (FSProvider fs root) depsMap env st) =
     Inr (marker_satisfied rule (FSProvider fs root) names allP \<or>
          extension_satisfied rule exts \<or> content_satisfied rule (FSProvider fs root) st \<or>
          dependency_satisfied rule depsMap \<or> dotenv_satisfied rule env) \<and>
   ((\<forall>f\<in>set (marker_files rule). \<forall>e. exists_p prov f \<noteq> Inl e) \<longrightarrow>
      fst (evaluateRule rule allP exts names prov depsMap env st) =
        Inr (marker_satisfied rule prov names allP \<or> extension_satisfied rule exts \<or>
             content_satisfied rule prov st \<or> dependency_satisfied rule depsMap \<or>
             dotenv_satisfied rule env) \<and>
      (marker_satisfied rule prov names allP \<or> extension_satisfied rule exts \<longrightarrow>
         evaluateRule rule allP exts names prov depsMap env st = (Inr True, st))) \<and>
   (marker_satisfied rule prov names allP \<longrightarrow>
      evaluateRule rule allP exts names prov depsMap env st =
      evaluateRule (only_files rule) allP exts names prov depsMap env st) \<and>
   (extension_satisfied rule exts \<longrightarrow>
      evaluateRule rule allP exts names prov depsMap env st =
      evaluateRule (upto_extensions rule) allP exts names prov depsMap env st) \<and>
   (content_satisfied rule prov st \<longrightarrow>
      evaluateRule rule allP exts names prov depsMap env st =
      evaluateRule (upto_content rule) allP exts names prov depsMap env st) \<and>
   (dependency_satisfied rule depsMap \<longrightarrow>
      evaluateRule rule allP exts names prov depsMap env st =
      evaluateRule (upto_dependencies rule) allP exts names prov depsMap env st) \<and>
   (rule_match rule = None \<and> dependencies rule = None \<and> dotenv rule = None \<longrightarrow>
      evaluateRule rule allP exts names prov depsMap env st = (Inr False, st))"
proof -
  have "fst (evaluateRule rule allP exts names (FSProvider fs root) depsMap env st) =
     Inr (marker_satisfied rule (FSProvider fs root) names allP \<or>
          extension_satisfied rule exts \<or> content_satisfied rule (FSProvider fs root) st \<or>
          dependency_satisfied rule depsMap \<or> dotenv_satisfied rule env)"
    by (rule evaluateRule_value) (simp add: FSProvider_exists)
  then show ?thesis
  using evaluateRule_value [of rule prov allP exts names depsMap env st]
    evaluateRule_early [of rule prov names allP exts depsMap env st]
    evaluateRule_cut_files [of rule prov names allP exts depsMap env st]
    evaluateRule_cut_extensions [of rule exts allP names prov depsMap env st]
    evaluateRule_cut_content [of rule prov st allP exts names depsMap env]
    evaluateRule_cut_dependencies [of rule depsMap allP exts names prov env st]
    evaluateRule_no_strategy [of rule allP exts names prov depsMap env st]
  by blast
qed

lemmas demo_defs = demo_provider_def react_rule_def blank_rule_def no_match_def
  init_state_def

theorem evaluateRule_first_satisfied_witness:
  "marker_files react_rule = [''react.config.js''] \<and>
   exists_p demo_provider ''react.config.js'' = Inr False \<and>
   \<not> marker_satisfied react_rule demo_provider {''app.tsx''} {''app.tsx''} \<and>
   \<not> extension_satisfied react_rule {''.tsx''} \<and>
   content_satisfied react_rule demo_provider init_state \<and>
   fst (evaluateRule react_rule {''app.tsx''} {''.tsx''} {''app.tsx''} demo_provider
          (\<lambda>t. []) [] init_state) = Inr True \<and>
   evaluateRule react_rule {''app.tsx''} {''.tsx''} {''app.tsx''} demo_provider
          (\<lambda>t. []) [] init_state =
   evaluateRule (upto_content react_rule) {''app.tsx''} {''.tsx''} {''app.tsx''} demo_provider
          (\<lambda>t. []) [] init_state"
proof -
  have a: "\<forall>f\<in>set (marker_files react_rule). \<forall>e. exists_p demo_provider f \<noteq> Inl e"
    by (simp add: marker_files_def demo_defs)
  have b: "\<not> marker_satisfied react_rule demo_provider {''app.tsx''} {''app.tsx''}"
    by (simp add: marker_satisfied_def marker_files_def demo_defs)
  have c: "\<not> extension_satisfied react_rule {''.tsx''}"
    by (simp add: extension_satisfied_def demo_defs)
  have d: "content_satisfied react_rule demo_provider init_state"
    by (simp add: content_satisfied_def readCached_def startsWith_def demo_defs)
  note T = evaluateRule_first_satisfied [where rule = react_rule and prov = demo_provider
      and allP = "{''app.tsx''}" and exts = "{''.tsx''}" and names = "{''app.tsx''}"
      and depsMap = "\<lambda>t. []" and env = "[]" and st = init_state and fs = missing_fs
      and root = "''/no/such/repo''"]
  have v: "fst (evaluateRule react_rule {''app.tsx''} {''.tsx''} {''app.tsx''} demo_provider
          (\<lambda>t. []) [] init_state) = Inr True"
    using conjunct1 [OF conjunct2 [OF T]] a d by simp
  have e: "evaluateRule react_rule {''app.tsx''} {''.tsx''} {''app.tsx''} demo_provider
          (\<lambda>t. []) [] init_state =
      evaluateRule (upto_content react_rule) {''app.tsx''} {''.tsx''} {''app.tsx''}
          demo_provider (\<lambda>t. []) [] init_state"
    using T d by blast
  have m: "marker_files react_rule = [''react.config.js'']"
    by (simp add: marker_files_def demo_defs)
  have x: "exists_p demo_provider ''react.config.js'' = Inr False"
    by (simp add: demo_defs)
  show ?thesis
    using m x b c d v e by blast
qed

text \<open>
  Claim C6. A dependency pair whose target is a literal is satisfied exactly when some
  declared name of its ecosystem equals the literal, character for character; a pair whose
  target is a pattern is satisfied exactly when the pattern finds a match in some declared
  name. The dependency block of a rule is true exactly when one of its pairs is satisfied,
  and a rule that declares only dependencies returns that value and leaves the state as
  it was.
\<close>

theorem dependency_match_exact:
  "deps_block rule depsMap =
     (\<exists>deps. dependencies rule = Some deps \<and>
        (\<exists>dep\<in>set deps.
           (case dep_name dep of
              Str nm \<Rightarrow> nm \<in> set (depsMap (dep_type dep))
            | RegExp re \<Rightarrow> (\<exists>pkg\<in>set (depsMap (dep_type dep)). re pkg)))) \<and>
   (rule_match rule = None \<and> dotenv rule = None \<longrightarrow>
      evaluateRule rule allP exts names prov depsMap env st =
        (Inr (dependency_satisfied rule depsMap), st))"
proof -
  have a: "deps_block rule depsMap = dependency_satisfied rule depsMap"
    by (rule deps_block_iff)
  have "evaluateRule rule allP exts names prov depsMap env st =
          (Inr (dependency_satisfied rule depsMap), st)"
    if "rule_match rule = None" "dotenv rule = None"
    using that a
    by (simp add: evaluateRule_def files_block_def ext_block_def content_block_def
          dotenv_block_def)
  then show ?thesis
    using a by (simp add: dependency_satisfied_def)
qed

theorem dependency_match_exact_witness:
  "extractPythonDeps ''django==4.2'' = [''django''] \<and>
   evaluateRule django_rule {} {} {} absent_provider
     ((\<lambda>t. [])(python := extractPythonDeps ''django==4.2'')) [] init_state =
     (Inr True, init_state) \<and>
   evaluateRule Django_rule {} {} {} absent_provider
     ((\<lambda>t. [])(python := extractPythonDeps ''django==4.2'')) [] init_state =
     (Inr False, init_state)"
proof -
  have x: "extractPythonDeps ''django==4.2'' = [''django'']"
    by (simp add: extractPythonDeps_def trim_def first_piece_def is_version_sep_def
          is_space_def is_line_terminator_def startsWith_def)
  have t: "dependency_satisfied django_rule ((\<lambda>t. [])(python := [''django'']))"
    by (simp add: dependency_satisfied_def django_rule_def blank_rule_def)
  have f: "\<not> dependency_satisfied Django_rule ((\<lambda>t. [])(python := [''django'']))"
    by (simp add: dependency_satisfied_def Django_rule_def blank_rule_def)
  show ?thesis
    using x t f
      dependency_match_exact [of django_rule "(\<lambda>t. [])(python := [''django''])" "{}" "{}" "{}"
        absent_provider "[]" init_state]
      dependency_match_exact [of Django_rule "(\<lambda>t. [])(python := [''django''])" "{}" "{}" "{}"
        absent_provider "[]" init_state]
    by (simp add: django_rule_def Django_rule_def blank_rule_def)
qed

text \<open>
  Claim C8. The dotenv block of a rule is true exactly when the sequence of discovered
  variable names is not empty and some discovered name starts with some declared prefix
  (a prefix of the name, not a substring of it). A rule that declares only dotenv
  prefixes returns that value and leaves the state as it was.
\<close>

theorem dotenv_prefix_match:
  "dotenv_block rule env =
     (\<exists>pres. dotenv rule = Some pres \<and> env \<noteq> [] \<and>
        (\<exists>v\<in>set env. \<exists>pre\<in>set pres. \<exists>rest. v = pre @ rest)) \<and>
   (rule_match rule = None \<and> dependencies rule = None \<longrightarrow>
      evaluateRule rule allP exts names prov depsMap env st =
        (Inr (dotenv_satisfied rule env), st))"
proof -
  have a: "dotenv_block rule env = dotenv_satisfied rule env"
    by (rule dotenv_block_iff)
  have "evaluateRule rule allP exts names prov depsMap env st =
          (Inr (dotenv_satisfied rule env), st)"
    if "rule_match rule = None" "dependencies rule = None"
    using that a
    by (simp add: evaluateRule_def files_block_def ext_block_def content_block_def
          deps_block_def)
  then show ?thesis
    using a by (simp add: dotenv_satisfied_def prefix_def)
qed

theorem dotenv_prefix_match_witness:
  "extractEnvVarNames ''POSTGRES_URL=x'' = [''POSTGRES_URL''] \<and>
   evaluateRule postgres_rule {} {} {} absent_provider (\<lambda>t. [])
     (extractEnvVarNames ''POSTGRES_URL=x'') init_state = (Inr True, init_state) \<and>
   evaluateRule postgres_rule {} {} {} absent_provider (\<lambda>t. [])
     [''MY_POSTGRES_URL''] init_state = (Inr False, init_state) \<and>
   evaluateRule postgres_rule {} {} {} absent_provider (\<lambda>t. [])
     [] init_state = (Inr False, init_state)"
proof -
  have x: "extractEnvVarNames ''POSTGRES_URL=x'' = [''POSTGRES_URL'']"
    by (simp add: extractEnvVarNames_def trim_def is_space_def startsWith_def)
  have t: "dotenv_satisfied postgres_rule [''POSTGRES_URL'']"
    by (simp add: dotenv_satisfied_def postgres_rule_def blank_rule_def)
  have f: "\<not> dotenv_satisfied postgres_rule [''MY_POSTGRES_URL'']"
    by (simp add: dotenv_satisfied_def postgres_rule_def blank_rule_def)
  have g: "\<not> dotenv_satisfied postgres_rule []"
    by (simp add: dotenv_satisfied_def)
  show ?thesis
    using x t f g
      dotenv_prefix_match [of postgres_rule "[''POSTGRES_URL'']" "{}" "{}" "{}"
        absent_provider "\<lambda>t. []" init_state]
      dotenv_prefix_match [of postgres_rule "[''MY_POSTGRES_URL'']" "{}" "{}" "{}"
        absent_provider "\<lambda>t. []" init_state]
      dotenv_prefix_match [of postgres_rule "[]" "{}" "{}" "{}"
        absent_provider "\<lambda>t. []" init_state]
    by (simp add: postgres_rule_def blank_rule_def)
qed

subsection \<open>Invariants of the scan state\<close>

lemma cache_ok_init: "cache_ok prov init_state"
  by (simp add: cache_ok_def init_state_def)

lemma log_inv_init: "log_inv init_state"
  by (simp add: log_inv_def init_state_def)

lemma cache_ok_warnLog [simp]: "cache_ok prov (st\<lparr>warnLog := w\<rparr>) = cache_ok prov st"
  by (simp add: cache_ok_def)

lemma log_inv_warnLog [simp]: "log_inv (st\<lparr>warnLog := w\<rparr>) = log_inv st"
  by (simp add: log_inv_def)

lemma readCached_value: "cache_ok prov st \<Longrightarrow> fst (readCached prov p st) = read_pure prov p"
  by (auto simp: readCached_def cache_ok_def read_pure_def split: option.splits sum.splits)

lemma readCached_cache_ok: "cache_ok prov st \<Longrightarrow> cache_ok prov (snd (readCached prov p st))"
  by (auto simp: readCached_def cache_ok_def read_pure_def split: option.splits sum.splits)

lemma readCached_log_inv: "log_inv st \<Longrightarrow> log_inv (snd (readCached prov p st))"
  by (auto simp: readCached_def log_inv_def split: option.splits sum.splits)

lemma readCached_warnLog: "warnLog (snd (readCached prov p st)) = warnLog st"
  by (auto simp: readCached_def split: option.splits sum.splits)

text \<open>A property of the state that every cached read keeps is kept by each step of the
  scan that only reads.\<close>

lemma content_loop_keeps:
  assumes "\<forall>p s. P s \<longrightarrow> P (snd (readCached prov p s))"
  shows "P st \<Longrightarrow> P (snd (content_loop prov cps st))"
proof (induction cps arbitrary: st)
  case Nil
  then show ?case by simp
next
  case (Cons cp cps)
  obtain v st1 where r: "readCached prov (cp_file cp) st = (v, st1)"
    by (cases "readCached prov (cp_file cp) st")
  have p1: "P st1"
    using assms Cons.prems r by (metis snd_conv)
  show ?case
    using r Cons.IH [OF p1] p1 by (cases v) auto
qed

lemma evaluateRule_keeps:
  assumes "\<forall>p s. P s \<longrightarrow> P (snd (readCached prov p s))" and "P st"
  shows "P (snd (evaluateRule rule allP exts names prov depsMap env st))"
proof -
  have c: "P (snd (content_block rule prov st))"
    using content_loop_keeps [where P = P and prov = prov and st = st] assms
    by (simp add: content_block_def split: option.splits)
  show ?thesis
    using c assms(2)
    by (cases "content_block rule prov st")
       (auto simp: evaluateRule_def split: sum.splits)
qed

lemma read_assign_keeps:
  assumes "\<forall>p s. P s \<longrightarrow> P (snd (readCached prov p s))" and "P (snd acc)"
  shows "P (snd (read_assign prov f ty extractor acc))"
proof -
  obtain depsMap st where acc: "acc = (depsMap, st)" by (cases acc)
  obtain v st1 where r: "readCached prov f st = (v, st1)" by (cases "readCached prov f st")
  have "P st1" using assms acc r by (metis snd_conv)
  then show ?thesis
    by (cases v) (simp_all add: read_assign_def acc r)
qed

lemma read_push_keeps:
  assumes "\<forall>p s. P s \<longrightarrow> P (snd (readCached prov p s))" and "P (snd acc)"
  shows "P (snd (read_push prov f ty extractor acc))"
proof -
  obtain depsMap st where acc: "acc = (depsMap, st)" by (cases acc)
  obtain v st1 where r: "readCached prov f st = (v, st1)" by (cases "readCached prov f st")
  have "P st1" using assms acc r by (metis snd_conv)
  then show ?thesis
    by (cases v) (simp_all add: read_push_def acc r)
qed

lemma read_env_keeps:
  assumes "\<forall>p s. P s \<longrightarrow> P (snd (readCached prov p s))" and "P (snd acc)"
  shows "P (snd (read_env prov f acc))"
proof -
  obtain names st where acc: "acc = (names, st)" by (cases acc)
  obtain v st1 where r: "readCached prov f st = (v, st1)" by (cases "readCached prov f st")
  have "P st1" using assms acc r by (metis snd_conv)
  then show ?thesis
    by (cases v) (simp_all add: read_env_def acc r)
qed

lemma fold_keeps:
  assumes "\<forall>x acc. P (snd acc) \<longrightarrow> P (snd (step x acc))"
  shows "P (snd acc) \<Longrightarrow> P (snd (fold step xs acc))"
proof (induction xs arbitrary: acc)
  case Nil
  then show ?case by simp
next
  case (Cons x xs)
  show ?case
    using Cons.IH [of "step x acc"] assms Cons.prems by simp
qed

lemma extract_deps_keeps:
  assumes k: "\<forall>p s. P s \<longrightarrow> P (snd (readCached prov p s))" and "P st"
  shows "P (snd (extract_deps ex prov st))"
proof -
  note ra = read_assign_keeps [where P = P and prov = prov, OF k]
  note rp = read_push_keeps [where P = P and prov = prov, OF k]
  have fp: "\<And>ty extractor fs acc. P (snd acc) \<Longrightarrow>
      P (snd (fold (\<lambda>f. read_push prov f ty extractor) fs acc))"
    by (rule fold_keeps [where P = P]) (auto intro: rp)
  show ?thesis
    unfolding extract_deps_def Let_def
    by (intro ra rp fp) (simp add: assms(2))
qed

lemma extract_env_keeps:
  assumes k: "\<forall>p s. P s \<longrightarrow> P (snd (readCached prov p s))" and "P st"
  shows "P (snd (extract_env prov st))"
  unfolding extract_env_def
  by (rule fold_keeps [where P = P])
     (auto intro: read_env_keeps [where P = P and prov = prov, OF k] assms(2))

lemma prepare_eq:
  "prepare ex prov =
     (fst (extract_deps ex prov init_state),
      fst (extract_env prov (snd (extract_deps ex prov init_state))),
      snd (extract_env prov (snd (extract_deps ex prov init_state))))"
  by (simp add: prepare_def split: prod.splits)

lemma prepare_keeps:
  assumes k: "\<forall>p s. P s \<longrightarrow> P (snd (readCached prov p s))" and "P init_state"
  shows "P (snd (snd (prepare ex prov)))"
proof -
  have a: "P (snd (extract_deps ex prov init_state))"
    by (rule extract_deps_keeps [where P = P and prov = prov, OF k]) (rule assms(2))
  have b: "P (snd (extract_env prov (snd (extract_deps ex prov init_state))))"
    by (rule extract_env_keeps [where P = P and prov = prov, OF k]) (rule a)
  show ?thesis
    using b by (simp add: prepare_eq)
qed


lemma prepare_cache_ok: "cache_ok prov (snd (snd (prepare ex prov)))"
  by (rule prepare_keeps [where P = "cache_ok prov"])
     (simp_all add: readCached_cache_ok cache_ok_init)

lemma prepare_log_inv: "log_inv (snd (snd (prepare ex prov)))"
  by (rule prepare_keeps [where P = log_inv])
     (simp_all add: readCached_log_inv log_inv_init)

lemma prepare_warnLog: "warnLog (snd (snd (prepare ex prov))) = []"
  by (rule prepare_keeps [where P = "\<lambda>s. warnLog s = []"])
     (simp_all add: readCached_warnLog init_state_def)

subsection \<open>The value of a rule does not depend on the cache\<close>

lemma content_block_value:
  assumes "cache_ok prov st"
  shows "fst (content_block rule prov st) =
     (\<exists>cps. Option.bind (rule_match rule) contentPatterns = Some cps \<and>
        (\<exists>cp\<in>set cps. \<exists>content. read_pure prov (cp_file cp) = Some content \<and>
           (\<exists>pat\<in>set (cp_patterns cp). content_test pat content)))"
  using content_loop_value_gen [of prov st "read_pure prov"] readCached_value [OF assms]
  by (auto simp: content_block_def split: option.splits)

lemma evaluateRule_fst:
  "fst (evaluateRule rule allP exts names prov depsMap env st) =
     (case files_block rule prov names allP of
        Inl e \<Rightarrow> Inl e
      | Inr found \<Rightarrow>
          Inr (found \<or> ext_block rule exts \<or> fst (content_block rule prov st) \<or>
               deps_block rule depsMap \<or> dotenv_block rule env))"
  by (cases "content_block rule prov st")
     (auto simp: evaluateRule_def split: sum.splits)

lemma evaluateRule_cache_free:
  assumes "cache_ok prov st" "cache_ok prov st'"
  shows "fst (evaluateRule rule allP exts names prov depsMap env st) =
         fst (evaluateRule rule allP exts names prov depsMap env st')"
proof -
  have "fst (content_block rule prov st) = fst (content_block rule prov st')"
    by (simp add: content_block_value [OF assms(1)] content_block_value [OF assms(2)])
  then show ?thesis
    by (cases "files_block rule prov names allP") (simp_all add: evaluateRule_fst)
qed

subsection \<open>The loop over the catalog\<close>

lemma rules_loop_result:
  assumes "cache_ok prov st0"
  shows "cache_ok prov st \<Longrightarrow>
    fst (rules_loop allP exts names prov depsMap env rules matched st) =
      (case first_abort (\<lambda>r. fst (evaluateRule r allP exts names prov depsMap env st0)) rules of
         Some e \<Rightarrow> Inl e
       | None \<Rightarrow>
           Inr (matched @ map node_of
             (filter (\<lambda>r. fst (evaluateRule r allP exts names prov depsMap env st0) = Inr True)
                rules))) \<and>
    warnLog (snd (rules_loop allP exts names prov depsMap env rules matched st)) =
      warnLog st @
      warnings_of (\<lambda>r. fst (evaluateRule r allP exts names prov depsMap env st0))
        (takeWhile
           (\<lambda>r. abort_of (fst (evaluateRule r allP exts names prov depsMap env st0)) = None)
           rules)"
proof (induction rules arbitrary: matched st)
  case Nil
  then show ?case by (simp add: warnings_of_def)
next
  case (Cons r rules)
  obtain v st1 where ev: "evaluateRule r allP exts names prov depsMap env st = (v, st1)"
    by (cases "evaluateRule r allP exts names prov depsMap env st")
  have v: "fst (evaluateRule r allP exts names prov depsMap env st0) = v"
    using evaluateRule_cache_free [OF assms Cons.prems, of r allP exts names depsMap env] ev
    by simp
  have ok1: "cache_ok prov st1"
    using evaluateRule_keeps [where P = "cache_ok prov" and prov = prov and st = st
        and rule = r and allP = allP and exts = exts and names = names and depsMap = depsMap
        and env = env]
      Cons.prems ev
    by (simp add: readCached_cache_ok)
  have w1: "warnLog st1 = warnLog st"
    using evaluateRule_keeps [where P = "\<lambda>s. warnLog s = warnLog st" and prov = prov
        and st = st and rule = r and allP = allP and exts = exts and names = names
        and depsMap = depsMap and env = env]
      ev
    by (simp add: readCached_warnLog)
  show ?case
  proof (cases v)
    case (Inl err)
    show ?thesis
    proof (cases "err_text err")
      case (Inl e)
      with \<open>v = Inl err\<close> show ?thesis
        using v ev w1 by (simp add: abort_of_def warnings_of_def split: option.splits)
    next
      case (Inr msg)
      with \<open>v = Inl err\<close> show ?thesis
        using Cons.IH [of "st1\<lparr>warnLog := warnLog st1 @ [warning_of r msg]\<rparr>" matched]
          ok1 w1 v ev
        by (simp add: abort_of_def warnings_of_def split: option.splits)
    qed
  next
    case (Inr b)
    show ?thesis
      using Cons.IH [of st1 "if b then matched @ [node_of r] else matched"]
        ok1 w1 v Inr ev
      by (simp add: abort_of_def warnings_of_def split: option.splits)
  qed
qed

lemma rules_loop_keeps:
  assumes "\<forall>p s. P s \<longrightarrow> P (snd (readCached prov p s))"
    and "\<forall>s w. P s \<longrightarrow> P (s\<lparr>warnLog := w\<rparr>)"
  shows "P st \<Longrightarrow> P (snd (rules_loop allP exts names prov depsMap env rules matched st))"
proof (induction rules arbitrary: matched st)
  case Nil
  then show ?case by simp
next
  case (Cons r rules)
  obtain v st1 where ev: "evaluateRule r allP exts names prov depsMap env st = (v, st1)"
    by (cases "evaluateRule r allP exts names prov depsMap env st")
  have p1: "P st1"
    using evaluateRule_keeps [where P = P and prov = prov and st = st
        and rule = r and allP = allP and exts = exts and names = names and depsMap = depsMap
        and env = env, OF assms(1) Cons.prems] ev
    by simp
  show ?case
  proof (cases v)
    case (Inl err)
    show ?thesis
    proof (cases "err_text err")
      case (Inl e)
      with \<open>v = Inl err\<close> show ?thesis
        using ev p1 by simp
    next
      case (Inr msg)
      have "P (st1\<lparr>warnLog := warnLog st1 @ [warning_of r msg]\<rparr>)"
        using assms(2) p1 by blast
      with \<open>v = Inl err\<close> Inr show ?thesis
        using Cons.IH ev by simp
    qed
  next
    case (Inr b)
    show ?thesis
      using Cons.IH [OF p1] ev Inr by simp
  qed
qed

subsection \<open>The analyser as a whole\<close>

lemma analyser_eq:
  assumes "build_index prov = Inr ix"
  shows "analyser ex rules prov =
     (map_sum id (\<lambda>matched. \<lparr>childs = matched\<rparr>)
        (fst (rules_loop (allPaths ix) (extensionSet ix) (allFileNames ix) prov
                (fst (prepare ex prov)) (fst (snd (prepare ex prov))) rules []
                (snd (snd (prepare ex prov))))),
      snd (rules_loop (allPaths ix) (extensionSet ix) (allFileNames ix) prov
             (fst (prepare ex prov)) (fst (snd (prepare ex prov))) rules []
             (snd (snd (prepare ex prov)))))"
  by (simp add: analyser_def assms prepare_eq split: prod.splits sum.splits)

lemma evaluation_of_eq:
  "evaluation_of ex prov ix rule =
     fst (evaluateRule rule (allPaths ix) (extensionSet ix) (allFileNames ix) prov
            (fst (prepare ex prov)) (fst (snd (prepare ex prov))) (snd (snd (prepare ex prov))))"
  by (simp add: evaluation_of_def split: prod.splits)

lemma evaluation_of_fun:
  "evaluation_of ex prov ix =
     (\<lambda>r. fst (evaluateRule r (allPaths ix) (extensionSet ix) (allFileNames ix) prov
            (fst (prepare ex prov)) (fst (snd (prepare ex prov))) (snd (snd (prepare ex prov)))))"
  by (rule ext) (rule evaluation_of_eq)

lemma analyser_childs:
  assumes "build_index prov = Inr ix"
  shows "fst (analyser ex rules prov) =
     (case first_abort (evaluation_of ex prov ix) rules of
        Some e \<Rightarrow> Inl e
      | None \<Rightarrow>
          Inr \<lparr>childs = map node_of (filter (\<lambda>r. evaluation_of ex prov ix r = Inr True) rules)\<rparr>)"
  using rules_loop_result [OF prepare_cache_ok [of prov ex] prepare_cache_ok [of prov ex],
      where allP = "allPaths ix" and exts = "extensionSet ix" and names = "allFileNames ix"
        and depsMap = "fst (prepare ex prov)" and env = "fst (snd (prepare ex prov))"
        and rules = rules and matched = "[]"]
  by (simp add: analyser_eq [OF assms] evaluation_of_fun split: option.splits)

lemma analyser_warnings:
  assumes "build_index prov = Inr ix"
  shows "warnLog (snd (analyser ex rules prov)) =
     warnings_for ex prov ix
       (takeWhile (\<lambda>r. abort_of (evaluation_of ex prov ix r) = None) rules)"
  using rules_loop_result [OF prepare_cache_ok [of prov ex] prepare_cache_ok [of prov ex],
      where allP = "allPaths ix" and exts = "extensionSet ix" and names = "allFileNames ix"
        and depsMap = "fst (prepare ex prov)" and env = "fst (snd (prepare ex prov))"
        and rules = rules and matched = "[]"]
  by (simp add: analyser_eq [OF assms] evaluation_of_fun warnings_for_def prepare_warnLog)

lemma first_abort_none:
  "(\<forall>r\<in>set rules. abort_of (ev r) = None) \<Longrightarrow> first_abort ev rules = None"
  by (induction rules) simp_all

lemma first_abort_skip:
  "abort_of (ev r) = None \<Longrightarrow>
   first_abort ev (before @ r # after) = first_abort ev (before @ after)"
  by (induction before) (simp_all split: option.splits)

lemma analyser_state_keeps:
  assumes "\<forall>p s. P s \<longrightarrow> P (snd (readCached prov p s))"
    and "\<forall>s w. P s \<longrightarrow> P (s\<lparr>warnLog := w\<rparr>)"
    and "P init_state"
  shows "P (snd (analyser ex rules prov))"
proof (cases "build_index prov")
  case (Inl e)
  then show ?thesis by (simp add: analyser_def assms(3))
next
  case (Inr ix)
  have "P (snd (snd (prepare ex prov)))"
    by (rule prepare_keeps [where P = P, OF assms(1) assms(3)])
  then show ?thesis
    unfolding analyser_eq [OF Inr] snd_conv
    by (rule rules_loop_keeps [where P = P, OF assms(1) assms(2)])
qed

text \<open>
  Claim C4. Whenever the analyser returns a payload, its nodes are, each made of the name
  and the type of its rule, those of exactly the rules of the catalog for which rule
  evaluation returns true, in the order of the catalog: one node per such rule, none for
  any other rule, and so never more nodes than rules. The analyser returns a payload
  unless the root listing throws or the catch block of the loop throws while it builds
  the warning for a rule; then it throws that value. The value that rule evaluation
  returns for a rule is the same in every state of the scan whose cache holds what the
  provider gave.
\<close>

theorem analyser_output_exact:
  "fst (analyser ex rules prov) =
     (case build_index prov of
        Inl e \<Rightarrow> Inl e
      | Inr ix \<Rightarrow>
          (case first_abort (evaluation_of ex prov ix) rules of
             Some e \<Rightarrow> Inl e
           | None \<Rightarrow>
               Inr \<lparr>childs =
                      map (\<lambda>r. \<lparr>node_name = rule_name r, node_type = rule_type r\<rparr>)
                        (filter (\<lambda>r. evaluation_of ex prov ix r = Inr True) rules)\<rparr>)) \<and>
   (case fst (analyser ex rules prov) of
      Inl e \<Rightarrow> True
    | Inr out \<Rightarrow> length (childs out) \<le> length rules) \<and>
   (build_index prov = Inr ix \<and> fst (analyser ex rules prov) = Inr out \<longrightarrow>
      childs out =
        map (\<lambda>r. \<lparr>node_name = rule_name r, node_type = rule_type r\<rparr>)
          (filter (\<lambda>r. evaluation_of ex prov ix r = Inr True) rules) \<and>
      length (childs out) \<le> length rules) \<and>
   (cache_ok prov st \<longrightarrow>
      fst (evaluateRule r (allPaths ix) (extensionSet ix) (allFileNames ix) prov
             (fst (prepare ex prov)) (fst (snd (prepare ex prov))) st) =
      evaluation_of ex prov ix r)"
proof -
  have n: "node_of = (\<lambda>r. \<lparr>node_name = rule_name r, node_type = rule_type r\<rparr>)"
    by (rule ext) (simp add: node_of_def)
  have a: "fst (analyser ex rules prov) =
     (case build_index prov of
        Inl e \<Rightarrow> Inl e
      | Inr ix \<Rightarrow>
          (case first_abort (evaluation_of ex prov ix) rules of
             Some e \<Rightarrow> Inl e
           | None \<Rightarrow>
               Inr \<lparr>childs =
                      map (\<lambda>r. \<lparr>node_name = rule_name r, node_type = rule_type r\<rparr>)
                        (filter (\<lambda>r. evaluation_of ex prov ix r = Inr True) rules)\<rparr>))"
  proof (cases "build_index prov")
    case (Inl e)
    then show ?thesis by (simp add: analyser_def)
  next
    case (Inr ix)
    show ?thesis
      using analyser_childs [OF Inr, of ex rules] Inr by (simp add: n split: option.splits)
  qed
  have c: "childs out =
        map (\<lambda>r. \<lparr>node_name = rule_name r, node_type = rule_type r\<rparr>)
          (filter (\<lambda>r. evaluation_of ex prov ix r = Inr True) rules) \<and>
      length (childs out) \<le> length rules"
    if "build_index prov = Inr ix" "fst (analyser ex rules prov) = Inr out"
    using analyser_childs [OF that(1), of ex rules] that(2)
    by (cases "first_abort (evaluation_of ex prov ix) rules") (auto simp: n)
  have b: "fst (evaluateRule r (allPaths ix) (extensionSet ix) (allFileNames ix) prov
             (fst (prepare ex prov)) (fst (snd (prepare ex prov))) st) =
      evaluation_of ex prov ix r"
    if "cache_ok prov st"
    unfolding evaluation_of_eq
    by (rule evaluateRule_cache_free [OF that prepare_cache_ok])
  have l: "(case fst (analyser ex rules prov) of
      Inl e \<Rightarrow> True
    | Inr out \<Rightarrow> length (childs out) \<le> length rules)"
  proof (cases "build_index prov")
    case (Inl e)
    then show ?thesis by (simp add: analyser_def)
  next
    case (Inr ix')
    show ?thesis
      using analyser_childs [OF Inr, of ex rules]
      by (cases "first_abort (evaluation_of ex prov ix') rules") simp_all
  qed
  show ?thesis
    using a b c l by blast
qed

lemmas eval_defs = analyser_def build_index_def add_root_entry_def add_child_def index_dir_def
  empty_index_def extract_deps_def extract_env_def read_assign_def read_push_def read_env_def
  readCached_def init_state_def evaluateRule_def files_block_def ext_block_def
  content_block_def deps_block_def dotenv_block_def node_of_def warning_of_def
  extractPythonDeps_def extractEnvVarNames_def trim_def first_piece_def is_version_sep_def
  is_space_def is_line_terminator_def startsWith_def substring_def Let_def

lemmas rule_defs = tsx_rule_def py_rule_def django_rule_def Django_rule_def postgres_rule_def
  boom_rule_def deep_rule_def react_rule_def blank_rule_def no_match_def

lemma demo_index: "build_index demo_provider = Inr demo_index"
  by (simp add: build_index_def demo_provider_def Let_def add_root_entry_def
        index_dir_def add_child_def empty_index_def demo_index_def substring_def)

lemma demo_run:
  "fst (analyser demo_extractors [tsx_rule, py_rule, boom_rule, Django_rule, django_rule]
     demo_provider) =
   Inr \<lparr>childs = [\<lparr>node_name = ''TypeScript'', node_type = language\<rparr>,
                  \<lparr>node_name = ''Django'', node_type = framework\<rparr>]\<rparr>"
  by (simp add: eval_defs rule_defs demo_provider_def demo_extractors_def)

theorem analyser_output_exact_witness:
  "build_index demo_provider = Inr demo_index \<and>
   fst (analyser demo_extractors [tsx_rule, py_rule, boom_rule, Django_rule, django_rule]
          demo_provider) =
   Inr \<lparr>childs = [\<lparr>node_name = ''TypeScript'', node_type = language\<rparr>,
                  \<lparr>node_name = ''Django'', node_type = framework\<rparr>]\<rparr> \<and>
   [\<lparr>node_name = ''TypeScript'', node_type = language\<rparr>,
    \<lparr>node_name = ''Django'', node_type = framework\<rparr>] =
   map (\<lambda>r. \<lparr>node_name = rule_name r, node_type = rule_type r\<rparr>)
     (filter (\<lambda>r. evaluation_of demo_extractors demo_provider demo_index r = Inr True)
        [tsx_rule, py_rule, boom_rule, Django_rule, django_rule])"
proof -
  note T = analyser_output_exact [where ex = demo_extractors and prov = demo_provider
      and rules = "[tsx_rule, py_rule, boom_rule, Django_rule, django_rule]"
      and st = init_state and ix = demo_index and r = tsx_rule
      and out = "\<lparr>childs = [\<lparr>node_name = ''TypeScript'', node_type = language\<rparr>,
                  \<lparr>node_name = ''Django'', node_type = framework\<rparr>]\<rparr>"]
  have "childs \<lparr>childs = [\<lparr>node_name = ''TypeScript'', node_type = language\<rparr>,
                  \<lparr>node_name = ''Django'', node_type = framework\<rparr>]\<rparr> =
   map (\<lambda>r. \<lparr>node_name = rule_name r, node_type = rule_type r\<rparr>)
     (filter (\<lambda>r. evaluation_of demo_extractors demo_provider demo_index r = Inr True)
        [tsx_rule, py_rule, boom_rule, Django_rule, django_rule])"
    using T demo_index demo_run by blast
  then have "[\<lparr>node_name = ''TypeScript'', node_type = language\<rparr>,
    \<lparr>node_name = ''Django'', node_type = framework\<rparr>] =
   map (\<lambda>r. \<lparr>node_name = rule_name r, node_type = rule_type r\<rparr>)
     (filter (\<lambda>r. evaluation_of demo_extractors demo_provider demo_index r = Inr True)
        [tsx_rule, py_rule, boom_rule, Django_rule, django_rule])"
    by (simp only: Payload.simps)
  then show ?thesis
    using demo_index demo_run by blast
qed

subsection \<open>A rule that throws\<close>

lemma warnings_for_append:
  "warnings_for ex prov ix (xs @ ys) = warnings_for ex prov ix xs @ warnings_for ex prov ix ys"
  by (simp add: warnings_for_def warnings_of_def)

text \<open>A thrown value that converts to a string is isolated: it is reported by one
  warning that names the rule, the rule gives no node, and the result of the scan is that
  of the catalog without the rule.\<close>

lemma printable_fault_isolated:
  assumes "build_index prov = Inr ix"
    and "evaluation_of ex prov ix r = Inl err" and "err_text err = Inr msg"
  shows "fst (analyser ex (before @ r # after) prov) = fst (analyser ex (before @ after) prov)"
    and "first_abort (evaluation_of ex prov ix) (before @ after) = None \<Longrightarrow>
         warnLog (snd (analyser ex (before @ r # after) prov)) =
           warnLog (snd (analyser ex before prov)) @
           (''Rule '' @ [CHR 0x22] @ rule_id r @ [CHR 0x22] @ '' threw: '' @ msg) #
           warnLog (snd (analyser ex after prov))"
proof -
  have na: "abort_of (evaluation_of ex prov ix r) = None"
    using assms(2,3) by (simp add: abort_of_def)
  show "fst (analyser ex (before @ r # after) prov) = fst (analyser ex (before @ after) prov)"
    using assms(2) first_abort_skip [where ev = "evaluation_of ex prov ix" and r = r
        and before = before and after = after, OF na]
    by (simp add: analyser_childs [OF assms(1)] split: option.splits)
  assume none: "first_abort (evaluation_of ex prov ix) (before @ after) = None"
  have all: "\<forall>x\<in>set rs. abort_of (evaluation_of ex prov ix x) = None"
    if "first_abort (evaluation_of ex prov ix) rs = None" for rs
    using that by (induction rs) (auto split: option.splits)
  have ba: "\<forall>x\<in>set (before @ after). abort_of (evaluation_of ex prov ix x) = None"
    by (rule all [OF none])
  have tw: "takeWhile (\<lambda>x. abort_of (evaluation_of ex prov ix x) = None) rs = rs"
    if "\<forall>x\<in>set rs. abort_of (evaluation_of ex prov ix x) = None" for rs
    using that by (simp add: takeWhile_eq_all_conv)
  have one: "warnings_for ex prov ix [r] =
      [''Rule '' @ [CHR 0x22] @ rule_id r @ [CHR 0x22] @ '' threw: '' @ msg]"
    using assms(2,3) by (simp add: warnings_for_def warnings_of_def warning_of_def)
  show "warnLog (snd (analyser ex (before @ r # after) prov)) =
           warnLog (snd (analyser ex before prov)) @
           (''Rule '' @ [CHR 0x22] @ rule_id r @ [CHR 0x22] @ '' threw: '' @ msg) #
           warnLog (snd (analyser ex after prov))"
    using ba na one warnings_for_append [of ex prov ix before "[r] @ after"]
      warnings_for_append [of ex prov ix "[r]" after]
    by (simp add: analyser_warnings [OF assms(1)] tw)
qed

lemma demo_boom:
  "evaluation_of demo_extractors demo_provider demo_index boom_rule = Inl (Thrown ''EIO'')"
  by (simp add: evaluation_of_eq evaluateRule_fst files_block_def boom_rule_def blank_rule_def
        no_match_def demo_provider_def demo_index_def)

lemma demo_warn:
  "warnLog (snd (analyser demo_extractors
      [tsx_rule, py_rule, boom_rule, Django_rule, django_rule] demo_provider)) =
   [''Rule '' @ [CHR 0x22] @ ''boom'' @ [CHR 0x22] @ '' threw: EIO'']"
  by (simp add: eval_defs rule_defs demo_provider_def demo_extractors_def)

lemma symbol_index: "build_index symbol_provider = Inr demo_index"
  by (simp add: build_index_def symbol_provider_def demo_provider_def Let_def add_root_entry_def
        index_dir_def add_child_def empty_index_def demo_index_def substring_def)

text \<open>
  Claim C7. A thrown value that converts to a string is caught, reported by a warning
  that names the rule, and leaves every other rule as it was (lemma
  \<open>printable_fault_isolated\<close>). A thrown value whose conversion to a string throws is
  caught as well, but the catch block throws while it builds the text of the warning, and
  that ends the scan: with an existence check that rejects with a \<^verbatim>\<open>Symbol\<close> on the
  marker of the second of three rules, the analyser throws a \<^verbatim>\<open>TypeError\<close>, writes no
  warning and returns no node, where the catalog without that rule gives two nodes.
\<close>

theorem unprintable_fault_aborts_scan:
  "build_index symbol_provider = Inr demo_index \<and>
   evaluation_of demo_extractors symbol_provider demo_index boom_rule =
     Inl (Unprintable (Thrown ''TypeError: Cannot convert a Symbol value to a string'')) \<and>
   fst (analyser demo_extractors [tsx_rule, boom_rule, django_rule] symbol_provider) =
     Inl (Thrown ''TypeError: Cannot convert a Symbol value to a string'') \<and>
   warnLog (snd (analyser demo_extractors [tsx_rule, boom_rule, django_rule] symbol_provider)) =
     [] \<and>
   fst (analyser demo_extractors [tsx_rule, django_rule] symbol_provider) =
     Inr \<lparr>childs = [\<lparr>node_name = ''TypeScript'', node_type = language\<rparr>,
                    \<lparr>node_name = ''Django'', node_type = framework\<rparr>]\<rparr>"
proof -
  have a: "evaluation_of demo_extractors symbol_provider demo_index boom_rule =
     Inl (Unprintable (Thrown ''TypeError: Cannot convert a Symbol value to a string''))"
    by (simp add: evaluation_of_eq evaluateRule_fst files_block_def boom_rule_def
          blank_rule_def no_match_def symbol_provider_def demo_provider_def demo_index_def)
  have b: "analyser demo_extractors [tsx_rule, boom_rule, django_rule] symbol_provider =
     (Inl (Thrown ''TypeError: Cannot convert a Symbol value to a string''),
      snd (analyser demo_extractors [tsx_rule] symbol_provider))"
    by (simp add: eval_defs rule_defs symbol_provider_def demo_provider_def
          demo_extractors_def)
  have w: "warnLog (snd (analyser demo_extractors [tsx_rule] symbol_provider)) = []"
    using analyser_warnings [OF symbol_index, of demo_extractors "[tsx_rule]"]
    by (simp add: warnings_for_def warnings_of_def evaluation_of_eq evaluateRule_fst
          files_block_def ext_block_def rule_defs demo_index_def abort_of_def)
  have c: "fst (analyser demo_extractors [tsx_rule, django_rule] symbol_provider) =
     Inr \<lparr>childs = [\<lparr>node_name = ''TypeScript'', node_type = language\<rparr>,
                    \<lparr>node_name = ''Django'', node_type = framework\<rparr>]\<rparr>"
    by (simp add: eval_defs rule_defs symbol_provider_def demo_provider_def
          demo_extractors_def)
  show ?thesis
    using symbol_index a b w c by simp
qed

lemma distinct_count_le_1: "distinct xs \<Longrightarrow> count_list xs p \<le> 1"
  by (induction xs) (auto simp: count_list_0_iff)

lemma analyser_log_inv: "log_inv (snd (analyser ex rules prov))"
  by (rule analyser_state_keeps [where P = log_inv])
     (simp_all add: readCached_log_inv log_inv_init)

lemma analyser_cache_ok: "cache_ok prov (snd (analyser ex rules prov))"
  by (rule analyser_state_keeps [where P = "cache_ok prov"])
     (simp_all add: readCached_cache_ok cache_ok_init)

text \<open>
  Claim C2. In the final state of every scan each path occurs at most once in the sequence
  of provider reads, the cached paths are exactly the paths read, and every cached value is
  what the one read of its path gave: the text on success, absent on any failure. A request
  for a path that is not cached invokes the provider once, caches what it gave and returns
  it; a request for a cached path returns the cached value and leaves the state, and so the
  sequence of provider reads, unchanged; in particular a second request right after a
  first one returns the same value without a read.
\<close>

theorem content_cache_read_once:
  "count_list (readLog (snd (analyser ex rules prov))) p \<le> 1 \<and>
   dom (contentCache (snd (analyser ex rules prov))) =
     set (readLog (snd (analyser ex rules prov))) \<and>
   (contentCache (snd (analyser ex rules prov)) p = Some v \<longrightarrow>
      v = (case readFile prov p of Inr content \<Rightarrow> Some content | Inl e \<Rightarrow> None)) \<and>
   (contentCache st p = None \<longrightarrow>
      readCached prov p st =
        (case readFile prov p of
           Inr content \<Rightarrow>
             (Some content,
              st\<lparr>contentCache := (contentCache st)(p \<mapsto> Some content),
                 readLog := readLog st @ [p]\<rparr>)
         | Inl e \<Rightarrow>
             (None,
              st\<lparr>contentCache := (contentCache st)(p \<mapsto> None),
                 readLog := readLog st @ [p]\<rparr>))) \<and>
   (contentCache st p = Some v \<longrightarrow> readCached prov p st = (v, st)) \<and>
   readCached prov p (snd (readCached prov p st)) =
     (fst (readCached prov p st), snd (readCached prov p st))"
proof -
  have a: "count_list (readLog (snd (analyser ex rules prov))) p \<le> 1"
    using analyser_log_inv [of ex rules prov]
    by (intro distinct_count_le_1) (simp add: log_inv_def)
  have b: "dom (contentCache (snd (analyser ex rules prov))) =
     set (readLog (snd (analyser ex rules prov)))"
    using analyser_log_inv [of ex rules prov] by (simp add: log_inv_def)
  have c: "v = (case readFile prov p of Inr content \<Rightarrow> Some content | Inl e \<Rightarrow> None)"
    if "contentCache (snd (analyser ex rules prov)) p = Some v"
    using analyser_cache_ok [of prov ex rules] that
    by (simp add: cache_ok_def read_pure_def)
  have d: "readCached prov p st =
        (case readFile prov p of
           Inr content \<Rightarrow>
             (Some content,
              st\<lparr>contentCache := (contentCache st)(p \<mapsto> Some content),
                 readLog := readLog st @ [p]\<rparr>)
         | Inl e \<Rightarrow>
             (None,
              st\<lparr>contentCache := (contentCache st)(p \<mapsto> None),
                 readLog := readLog st @ [p]\<rparr>))"
    if "contentCache st p = None"
    using that by (simp add: readCached_def split: sum.splits)
  have e: "readCached prov p st = (v, st)" if "contentCache st p = Some v"
    using that by (simp add: readCached_def)
  have f: "readCached prov p (snd (readCached prov p st)) =
     (fst (readCached prov p st), snd (readCached prov p st))"
    by (auto simp: readCached_def split: option.splits sum.splits)
  show ?thesis
    using a b c d e f by blast
qed

lemma demo_reads:
  "readLog (snd (analyser demo_extractors [react_rule, react_rule, tsx_rule] demo_provider)) =
   [''package.json'', ''requirements.txt'', ''requirements-dev.txt'',
    ''requirements-base.txt'', ''pyproject.toml'', ''Gemfile'', ''go.mod'',
    ''Cargo.toml'', ''composer.json'', ''docker-compose.yml'',
    ''docker-compose.yaml'', ''compose.yml'', ''compose.yaml'',
    ''Dockerfile'', ''.env'', ''.env.local'', ''.env.example'',
    ''.env.development'', ''.env.production'', ''.env.test'', ''app.tsx'']"
  by (simp add: eval_defs rule_defs demo_provider_def demo_extractors_def)


theorem content_cache_read_once_witness:
  "readLog (snd (analyser demo_extractors [react_rule, react_rule, tsx_rule] demo_provider)) =
   [''package.json'', ''requirements.txt'', ''requirements-dev.txt'',
    ''requirements-base.txt'', ''pyproject.toml'', ''Gemfile'', ''go.mod'',
    ''Cargo.toml'', ''composer.json'', ''docker-compose.yml'',
    ''docker-compose.yaml'', ''compose.yml'', ''compose.yaml'',
    ''Dockerfile'', ''.env'', ''.env.local'', ''.env.example'',
    ''.env.development'', ''.env.production'', ''.env.test'', ''app.tsx''] \<and>
   count_list (readLog (snd (analyser demo_extractors [react_rule, react_rule, tsx_rule]
     demo_provider))) ''app.tsx'' \<le> 1 \<and>
   contentCache init_state ''app.tsx'' = None \<and>
   readCached demo_provider ''app.tsx'' init_state =
     (Some ''import React'',
      init_state\<lparr>contentCache := (contentCache init_state)(''app.tsx'' \<mapsto> Some ''import React''),
                 readLog := readLog init_state @ [''app.tsx'']\<rparr>) \<and>
   readCached demo_provider ''app.tsx'' (snd (readCached demo_provider ''app.tsx'' init_state)) =
     (fst (readCached demo_provider ''app.tsx'' init_state),
      snd (readCached demo_provider ''app.tsx'' init_state))"
proof -
  note T = content_cache_read_once [of demo_extractors "[react_rule, react_rule, tsx_rule]"
      demo_provider "''app.tsx''" "Some ''import React''" init_state]
  have h: "contentCache init_state ''app.tsx'' = None"
    by (simp add: init_state_def)
  have r: "readFile demo_provider ''app.tsx'' = Inr ''import React''"
    by (simp add: demo_provider_def)
  have r1: "readCached demo_provider ''app.tsx'' init_state =
     (Some ''import React'',
      init_state\<lparr>contentCache := (contentCache init_state)(''app.tsx'' \<mapsto> Some ''import React''),
                 readLog := readLog init_state @ [''app.tsx'']\<rparr>)"
    using T h by (simp add: r)
  show ?thesis
    using T demo_reads h r1 by blast
qed

subsection \<open>A tree source on which every read fails\<close>

lemma read_assign_absent:
  assumes "\<forall>p. read_pure prov p = None" and "cache_ok prov (snd acc) \<and> fst acc = d"
  shows "cache_ok prov (snd (read_assign prov f ty extractor acc)) \<and>
         fst (read_assign prov f ty extractor acc) = d"
proof -
  obtain depsMap st where acc: "acc = (depsMap, st)" by (cases acc)
  obtain v st1 where r: "readCached prov f st = (v, st1)" by (cases "readCached prov f st")
  have "v = None" "cache_ok prov st1"
    using readCached_value [of prov st f] readCached_cache_ok [of prov st f] assms acc r
    by simp_all
  then show ?thesis
    using assms(2) by (simp add: read_assign_def acc r)
qed

lemma read_push_absent:
  assumes "\<forall>p. read_pure prov p = None" and "cache_ok prov (snd acc) \<and> fst acc = d"
  shows "cache_ok prov (snd (read_push prov f ty extractor acc)) \<and>
         fst (read_push prov f ty extractor acc) = d"
proof -
  obtain depsMap st where acc: "acc = (depsMap, st)" by (cases acc)
  obtain v st1 where r: "readCached prov f st = (v, st1)" by (cases "readCached prov f st")
  have "v = None" "cache_ok prov st1"
    using readCached_value [of prov st f] readCached_cache_ok [of prov st f] assms acc r
    by simp_all
  then show ?thesis
    using assms(2) by (simp add: read_push_def acc r)
qed

lemma read_env_absent:
  assumes "\<forall>p. read_pure prov p = None" and "cache_ok prov (snd acc) \<and> fst acc = d"
  shows "cache_ok prov (snd (read_env prov f acc)) \<and> fst (read_env prov f acc) = d"
proof -
  obtain names st where acc: "acc = (names, st)" by (cases acc)
  obtain v st1 where r: "readCached prov f st = (v, st1)" by (cases "readCached prov f st")
  have "v = None" "cache_ok prov st1"
    using readCached_value [of prov st f] readCached_cache_ok [of prov st f] assms acc r
    by simp_all
  then show ?thesis
    using assms(2) by (simp add: read_env_def acc r)
qed

lemma fold_acc_keeps:
  assumes "\<forall>x acc. Q acc \<longrightarrow> Q (step x acc)"
  shows "Q acc \<Longrightarrow> Q (fold step xs acc)"
proof (induction xs arbitrary: acc)
  case Nil
  then show ?case by simp
next
  case (Cons x xs)
  show ?case
    using Cons.IH [of "step x acc"] assms Cons.prems by simp
qed

lemma extract_deps_absent:
  assumes a: "\<forall>p. read_pure prov p = None" and "cache_ok prov st"
  shows "fst (extract_deps ex prov st) = (\<lambda>ty. [])"
proof -
  let ?Q = "\<lambda>acc :: (DepType \<Rightarrow> string list) \<times> ScanState.
              cache_ok prov (snd acc) \<and> fst acc = (\<lambda>ty. [])"
  note ra = read_assign_absent [where prov = prov and d = "\<lambda>ty. []", OF a]
  note rp = read_push_absent [where prov = prov and d = "\<lambda>ty. []", OF a]
  have fp: "\<And>ty extractor fs acc. ?Q acc \<Longrightarrow>
      ?Q (fold (\<lambda>f. read_push prov f ty extractor) fs acc)"
  proof -
    fix ty :: DepType and extractor :: "string \<Rightarrow> string list" and fs :: "string list"
      and acc :: "(DepType \<Rightarrow> string list) \<times> ScanState"
    assume q: "?Q acc"
    have "\<forall>f acc. ?Q acc \<longrightarrow> ?Q (read_push prov f ty extractor acc)"
      by (intro allI impI rp)
    then show "?Q (fold (\<lambda>f. read_push prov f ty extractor) fs acc)"
      using q by (rule fold_acc_keeps [where Q = ?Q])
  qed
  have "?Q (extract_deps ex prov st)"
    unfolding extract_deps_def Let_def
    by (intro ra rp fp) (simp add: assms(2))
  then show ?thesis by simp
qed

lemma extract_env_absent:
  assumes a: "\<forall>p. read_pure prov p = None" and "cache_ok prov st"
  shows "fst (extract_env prov st) = []"
proof -
  let ?Q = "\<lambda>acc. cache_ok prov (snd acc) \<and> fst acc = ([] :: string list)"
  have "\<forall>f acc. ?Q acc \<longrightarrow> ?Q (read_env prov f acc)"
    by (intro allI impI read_env_absent [where prov = prov and d = "[]", OF a])
  moreover have "?Q ([], st)"
    by (simp add: assms(2))
  ultimately have "?Q (extract_env prov st)"
    unfolding extract_env_def
    by (rule fold_acc_keeps [where Q = ?Q])
  then show ?thesis by simp
qed

lemma prepare_absent:
  assumes "\<forall>p. read_pure prov p = None"
  shows "fst (prepare ex prov) = (\<lambda>ty. [])" and "fst (snd (prepare ex prov)) = []"
proof -
  show "fst (prepare ex prov) = (\<lambda>ty. [])"
    by (simp add: prepare_eq extract_deps_absent [OF assms cache_ok_init])
  have "cache_ok prov (snd (extract_deps ex prov init_state))"
    by (rule extract_deps_keeps [where P = "cache_ok prov"])
       (simp_all add: readCached_cache_ok cache_ok_init)
  then show "fst (snd (prepare ex prov)) = []"
    by (simp add: prepare_eq extract_env_absent [OF assms])
qed

lemma deps_loop_empty: "deps_loop (\<lambda>ty. []) deps = False"
  by (induction deps) simp_all

lemma no_match_when_absent:
  assumes "listFiles prov ''.'' = Inr []"
    and "\<forall>p. \<exists>e. readFile prov p = Inl e"
    and "\<forall>p. exists_p prov p = Inr False"
  shows "fst (analyser ex rules prov) = Inr \<lparr>childs = []\<rparr>"
proof -
  have ix: "build_index prov = Inr empty_index"
    using assms(1) by (simp add: build_index_def empty_index_def)
  have absent: "\<forall>p. read_pure prov p = None"
  proof
    fix p
    from assms(2) obtain e where "readFile prov p = Inl e" by blast
    then show "read_pure prov p = None" by (simp add: read_pure_def)
  qed
  have none: "evaluation_of ex prov empty_index r = Inr False" for r
  proof -
    have f: "files_block r prov {} {} = Inr False"
      using files_block_no_throw [of r prov "{}" "{}"] assms(3)
      by (simp add: marker_satisfied_def)
    have e: "\<not> ext_block r {}"
      by (simp add: ext_block_iff extension_satisfied_def)
    have c: "\<not> fst (content_block r prov (snd (snd (prepare ex prov))))"
      using absent by (simp add: content_block_value [OF prepare_cache_ok])
    have d: "\<not> deps_block r (\<lambda>ty. [])"
      by (simp add: deps_block_def deps_loop_empty split: option.splits)
    have v: "\<not> dotenv_block r []"
      by (simp add: dotenv_block_def split: option.splits)
    show ?thesis
      using f e c d v
      by (simp add: evaluation_of_eq evaluateRule_fst prepare_absent [OF absent]
            empty_index_def)
  qed
  have "first_abort (evaluation_of ex prov empty_index) rules = None"
    by (rule first_abort_none) (simp add: none abort_of_def)
  then show ?thesis
    by (simp add: analyser_childs [OF ix] none)
qed

text \<open>
  Claim C10. When the listing of the root gives the empty sequence, every read fails and
  every existence check returns false, the analyser returns, for every catalog, the
  payload without nodes: it does not throw, and no rule matches. This is the case of the
  provider backed by the local file system when nothing exists below its root: its
  listing of a directory that does not exist is the empty sequence.
\<close>

theorem unavailable_tree_no_match:
  "(listFiles prov ''.'' = Inr [] \<and> (\<forall>p. \<exists>e. readFile prov p = Inl e) \<and>
    (\<forall>p. exists_p prov p = Inr False) \<longrightarrow>
      fst (analyser ex rules prov) = Inr \<lparr>childs = []\<rparr>) \<and>
   ((\<forall>p. \<not> pathExists fs (resolve fs root p)) \<and>
    (\<forall>p. \<exists>e. fs_readFile fs (resolve fs root p) = Inl e) \<longrightarrow>
      listFiles (FSProvider fs root) ''.'' = Inr [] \<and>
      fst (analyser ex rules (FSProvider fs root)) = Inr \<lparr>childs = []\<rparr>)"
proof -
  have "listFiles (FSProvider fs root) ''.'' = Inr [] \<and>
      fst (analyser ex rules (FSProvider fs root)) = Inr \<lparr>childs = []\<rparr>"
    if a: "\<forall>p. \<not> pathExists fs (resolve fs root p)"
      and b: "\<forall>p. \<exists>e. fs_readFile fs (resolve fs root p) = Inl e"
  proof -
    have l: "listFiles (FSProvider fs root) ''.'' = Inr []"
      using a by (simp add: FSProvider_def)
    have r: "\<forall>p. \<exists>e. readFile (FSProvider fs root) p = Inl e"
      using b by (simp add: FSProvider_def)
    have x: "\<forall>p. exists_p (FSProvider fs root) p = Inr False"
      using a by (simp add: FSProvider_exists)
    show ?thesis
      using l no_match_when_absent [OF l r x] by simp
  qed
  then show ?thesis
    using no_match_when_absent [of prov ex rules] by blast
qed

theorem unavailable_tree_no_match_witness:
  "pathExists missing_fs (resolve missing_fs ''/no/such/repo'' ''.'') = False \<and>
   fs_readFile missing_fs (resolve missing_fs ''/no/such/repo'' ''package.json'') =
     Inl (Thrown ''ENOENT'') \<and>
   listFiles (FSProvider missing_fs ''/no/such/repo'') ''.'' = Inr [] \<and>
   fst (analyser demo_extractors
          [tsx_rule, py_rule, django_rule, postgres_rule, boom_rule, deep_rule, react_rule,
           blank_rule] (FSProvider missing_fs ''/no/such/repo'')) = Inr \<lparr>childs = []\<rparr>"
proof -
  have a: "\<forall>p. \<not> pathExists missing_fs (resolve missing_fs ''/no/such/repo'' p)"
    by (simp add: missing_fs_def)
  have b: "\<forall>p. \<exists>e. fs_readFile missing_fs (resolve missing_fs ''/no/such/repo'' p) = Inl e"
    by (simp add: missing_fs_def)
  have c: "pathExists missing_fs (resolve missing_fs ''/no/such/repo'' ''.'') = False"
    by (simp add: missing_fs_def)
  have d: "fs_readFile missing_fs (resolve missing_fs ''/no/such/repo'' ''package.json'') =
     Inl (Thrown ''ENOENT'')"
    by (simp add: missing_fs_def)
  show ?thesis
    using a b c d
      unavailable_tree_no_match [of absent_provider demo_extractors
        "[tsx_rule, py_rule, django_rule, postgres_rule, boom_rule, deep_rule, react_rule,
          blank_rule]" missing_fs "''/no/such/repo''"]
    by blast
qed

subsection \<open>The repository index\<close>

lemma lastIndexOf_absent: "c \<notin> set s \<Longrightarrow> lastIndexOf s c = - 1"
  by (induction s) (auto simp: Let_def)

lemma lastIndexOf_last:
  "c \<notin> set suf \<Longrightarrow> lastIndexOf (pre @ c # suf) c = int (length pre)"
  by (induction pre) (auto simp: Let_def lastIndexOf_absent)

lemma lastIndexOf_split:
  assumes "0 \<le> lastIndexOf s c"
  shows "\<exists>pre suf. s = pre @ c # suf \<and> c \<notin> set suf \<and> lastIndexOf s c = int (length pre)"
proof -
  have "c \<in> set s"
    using assms lastIndexOf_absent [of c s] by fastforce
  then obtain pre suf where "s = pre @ c # suf" "c \<notin> set suf"
    by (meson split_list_last)
  then show ?thesis
    using lastIndexOf_last [of c suf pre] by blast
qed

lemma has_extension_iff:
  "has_extension nm ext \<longleftrightarrow>
     0 < lastIndexOf nm CHR ''.'' \<and> ext = substring nm (lastIndexOf nm CHR ''.'')"
proof
  assume h: "has_extension nm ext"
  then obtain suf where ext: "ext = CHR ''.'' # suf" and suf: "CHR ''.'' \<notin> set suf"
    by (cases ext) (auto simp: has_extension_def)
  let ?k = "length nm - length ext"
  from h have k: "0 < ?k" and d: "drop ?k nm = ext"
    by (auto simp: has_extension_def)
  have nm: "nm = take ?k nm @ CHR ''.'' # suf"
    using d ext by (metis append_take_drop_id)
  have len: "length (take ?k nm) = ?k"
    by simp
  have li: "lastIndexOf nm CHR ''.'' = int ?k"
    using lastIndexOf_last [OF suf, of "take ?k nm"] nm len by metis
  have "nat (lastIndexOf nm CHR ''.'') = ?k"
    unfolding li by (rule nat_int)
  then have "substring nm (lastIndexOf nm CHR ''.'') = ext"
    using d by (simp add: substring_def)
  moreover have "0 < lastIndexOf nm CHR ''.''"
    unfolding li using k by linarith
  ultimately show "0 < lastIndexOf nm CHR ''.'' \<and> ext = substring nm (lastIndexOf nm CHR ''.'')"
    by simp
next
  assume a: "0 < lastIndexOf nm CHR ''.'' \<and> ext = substring nm (lastIndexOf nm CHR ''.'')"
  then obtain pre suf where nm: "nm = pre @ CHR ''.'' # suf" and suf: "CHR ''.'' \<notin> set suf"
    and i: "lastIndexOf nm CHR ''.'' = int (length pre)"
    using lastIndexOf_split [of nm "CHR ''.''"] by force
  from a i have "ext = CHR ''.'' # suf" and "pre \<noteq> []"
    by (auto simp: substring_def nm)
  then show "has_extension nm ext"
    using suf by (simp add: has_extension_def nm)
qed

lemma root_fold:
  "allPaths (fold add_root_entry fs ix) = allPaths ix \<union> path ` set fs"
  "allFileNames (fold add_root_entry fs ix) = allFileNames ix \<union> name ` set fs"
  "dirs (fold add_root_entry fs ix) = dirs ix @ map name (filter isDirectory fs)"
  "extensionSet (fold add_root_entry fs ix) =
     extensionSet ix \<union>
     {ext. \<exists>f\<in>set fs. \<not> isDirectory f \<and> has_extension (name f) ext}"
  by (induction fs arbitrary: ix; auto simp: add_root_entry_def Let_def has_extension_iff)+

lemma grandchildren_fold:
  "allFileNames (fold (\<lambda>gc i. i\<lparr>allPaths := insert (path gc) (allPaths i)\<rparr>) gcs ix) =
     allFileNames ix"
  "extensionSet (fold (\<lambda>gc i. i\<lparr>allPaths := insert (path gc) (allPaths i)\<rparr>) gcs ix) =
     extensionSet ix"
  "dirs (fold (\<lambda>gc i. i\<lparr>allPaths := insert (path gc) (allPaths i)\<rparr>) gcs ix) = dirs ix"
  by (induction gcs arbitrary: ix; simp)+

lemma add_child_fields:
  "allFileNames (add_child prov c ix) = insert (name c) (allFileNames ix)"
  "extensionSet (add_child prov c ix) = extensionSet ix"
  "dirs (add_child prov c ix) = dirs ix"
  by (simp_all add: add_child_def Let_def grandchildren_fold split: sum.splits)

lemma children_fold:
  "allFileNames (fold (add_child prov) cs ix) = allFileNames ix \<union> name ` set cs"
  "extensionSet (fold (add_child prov) cs ix) = extensionSet ix"
  "dirs (fold (add_child prov) cs ix) = dirs ix"
  by (induction cs arbitrary: ix; auto simp: add_child_fields)+

lemma index_dir_fields:
  "allFileNames (index_dir prov d ix) =
     allFileNames ix \<union> (case listFiles prov d of Inl e \<Rightarrow> {} | Inr cs \<Rightarrow> name ` set cs)"
  "extensionSet (index_dir prov d ix) = extensionSet ix"
  "dirs (index_dir prov d ix) = dirs ix"
  by (simp_all add: index_dir_def children_fold split: sum.splits)

lemma dirs_fold:
  "allFileNames (fold (index_dir prov) ds ix) =
     allFileNames ix \<union>
     (\<Union>d\<in>set ds. case listFiles prov d of Inl e \<Rightarrow> {} | Inr cs \<Rightarrow> name ` set cs)"
  "extensionSet (fold (index_dir prov) ds ix) = extensionSet ix"
  "dirs (fold (index_dir prov) ds ix) = dirs ix"
  by (induction ds arbitrary: ix; auto simp: index_dir_fields)+

lemma build_index_fields:
  assumes "listFiles prov ''.'' = Inr rootFiles" and "build_index prov = Inr ix"
  shows "allFileNames ix = name ` set rootFiles \<union> child_names prov rootFiles"
    and "extensionSet ix =
           {ext. \<exists>f\<in>set rootFiles. \<not> isDirectory f \<and> has_extension (name f) ext}"
proof -
  have ix: "ix = fold (index_dir prov) (dirs (fold add_root_entry rootFiles empty_index))
                   (fold add_root_entry rootFiles empty_index)"
    using assms by (simp add: build_index_def Let_def)
  show "allFileNames ix = name ` set rootFiles \<union> child_names prov rootFiles"
    unfolding ix by (simp add: dirs_fold root_fold empty_index_def child_names_def)
  show "extensionSet ix =
           {ext. \<exists>f\<in>set rootFiles. \<not> isDirectory f \<and> has_extension (name f) ext}"
    unfolding ix by (simp add: dirs_fold root_fold empty_index_def)
qed


lemma demo_root:
  "listFiles demo_provider ''.'' =
     Inr [\<lparr>path = ''app.tsx'', name = ''app.tsx'', isDirectory = False\<rparr>,
          \<lparr>path = ''requirements.txt'', name = ''requirements.txt'', isDirectory = False\<rparr>,
          \<lparr>path = ''src'', name = ''src'', isDirectory = True\<rparr>]"
  by (simp add: demo_provider_def)

text \<open>
  Claim C3, as the code has it. The name set that the analyser hands to rule evaluation as
  the root-name set holds exactly the basenames of the entries at the repository root and
  of the entries listed directly inside the root-level directories (depth 2); a basename
  that occurs only at depth 3 or deeper is not a member. For a rule with only marker
  files, the marker loop runs with this set as its root-name set.
\<close>

theorem name_set_two_levels:
  assumes "listFiles prov ''.'' = Inr rootFiles" and "build_index prov = Inr ix"
  shows "allFileNames ix = name ` set rootFiles \<union> child_names prov rootFiles \<and>
         (rule_match rule = Some \<lparr>files = Some fs, extensions = None, contentPatterns = None\<rparr> \<and>
          dependencies rule = None \<and> dotenv rule = None \<longrightarrow>
            evaluation_of ex prov ix rule = files_loop prov (allFileNames ix) (allPaths ix) fs)"
proof -
  have "evaluation_of ex prov ix rule = files_loop prov (allFileNames ix) (allPaths ix) fs"
    if "rule_match rule = Some \<lparr>files = Some fs, extensions = None, contentPatterns = None\<rparr>"
      "dependencies rule = None" "dotenv rule = None"
    using that
    by (cases "files_loop prov (allFileNames ix) (allPaths ix) fs")
       (simp_all add: evaluation_of_eq evaluateRule_fst files_block_def ext_block_def
          content_block_def deps_block_def dotenv_block_def)
  then show ?thesis
    using build_index_fields(1) [OF assms] by blast
qed

theorem name_set_two_levels_witness:
  "build_index demo_provider = Inr demo_index \<and>
   allFileNames demo_index = {''lib'', ''deep.txt'', ''src'', ''requirements.txt'', ''app.tsx''} \<and>
   child_names demo_provider
     [\<lparr>path = ''app.tsx'', name = ''app.tsx'', isDirectory = False\<rparr>,
      \<lparr>path = ''requirements.txt'', name = ''requirements.txt'', isDirectory = False\<rparr>,
      \<lparr>path = ''src'', name = ''src'', isDirectory = True\<rparr>] = {''deep.txt'', ''lib''} \<and>
   ''x.py'' \<notin> allFileNames demo_index \<and>
   evaluation_of demo_extractors demo_provider demo_index deep_rule =
     files_loop demo_provider (allFileNames demo_index) (allPaths demo_index) [''deep.txt'']"
proof -
  note T = name_set_two_levels [OF demo_root demo_index, of deep_rule "[''deep.txt'']"
      demo_extractors]
  have a: "allFileNames demo_index =
      {''lib'', ''deep.txt'', ''src'', ''requirements.txt'', ''app.tsx''}"
    by (simp add: demo_index_def)
  have c: "child_names demo_provider
     [\<lparr>path = ''app.tsx'', name = ''app.tsx'', isDirectory = False\<rparr>,
      \<lparr>path = ''requirements.txt'', name = ''requirements.txt'', isDirectory = False\<rparr>,
      \<lparr>path = ''src'', name = ''src'', isDirectory = True\<rparr>] = {''deep.txt'', ''lib''}"
    by (simp add: child_names_def demo_provider_def)
  have x: "''x.py'' \<notin> allFileNames demo_index"
    using conjunct1 [OF T] c by simp
  have r: "rule_match deep_rule =
      Some \<lparr>files = Some [''deep.txt''], extensions = None, contentPatterns = None\<rparr> \<and>
      dependencies deep_rule = None \<and> dotenv deep_rule = None"
    by (simp add: rule_defs)
  show ?thesis
    using T demo_index a c x r by blast
qed

theorem root_names_counterexample:
  "build_index demo_provider = Inr demo_index \<and>
   listFiles demo_provider ''.'' =
     Inr [\<lparr>path = ''app.tsx'', name = ''app.tsx'', isDirectory = False\<rparr>,
          \<lparr>path = ''requirements.txt'', name = ''requirements.txt'', isDirectory = False\<rparr>,
          \<lparr>path = ''src'', name = ''src'', isDirectory = True\<rparr>] \<and>
   listFiles demo_provider ''src'' =
     Inr [\<lparr>path = ''src/deep.txt'', name = ''deep.txt'', isDirectory = False\<rparr>,
          \<lparr>path = ''src/lib'', name = ''lib'', isDirectory = True\<rparr>] \<and>
   ''deep.txt'' \<in> allFileNames demo_index \<and>
   ''deep.txt'' \<notin> allPaths demo_index \<and>
   exists_p demo_provider ''deep.txt'' = Inr False \<and>
   fst (analyser demo_extractors [deep_rule] demo_provider) =
     Inr \<lparr>childs = [\<lparr>node_name = ''Deep'', node_type = tool\<rparr>]\<rparr>"
proof -
  have a: "listFiles demo_provider ''src'' =
     Inr [\<lparr>path = ''src/deep.txt'', name = ''deep.txt'', isDirectory = False\<rparr>,
          \<lparr>path = ''src/lib'', name = ''lib'', isDirectory = True\<rparr>]"
    by (simp add: demo_provider_def)
  have b: "''deep.txt'' \<in> allFileNames demo_index" "''deep.txt'' \<notin> allPaths demo_index"
    by (simp_all add: demo_index_def)
  have c: "exists_p demo_provider ''deep.txt'' = Inr False"
    by (simp add: demo_provider_def)
  have d: "fst (analyser demo_extractors [deep_rule] demo_provider) =
     Inr \<lparr>childs = [\<lparr>node_name = ''Deep'', node_type = tool\<rparr>]\<rparr>"
    by (simp add: eval_defs rule_defs demo_provider_def demo_extractors_def)
  show ?thesis
    using demo_index demo_root a b c d by blast
qed

text \<open>
  Claim C5. The extension set of the index holds exactly the extensions of the files
  listed at the repository root, an extension being the part of a name from its last dot
  on when that dot is not the first character. A rule with only an extension strategy
  returns true exactly when some file at the root has a listed extension, and leaves the
  state unchanged; what is listed at depth 2 or 3 plays no part.
\<close>

theorem extension_root_only:
  assumes "listFiles prov ''.'' = Inr rootFiles" and "build_index prov = Inr ix"
    and "rule_match rule = Some \<lparr>files = None, extensions = Some es, contentPatterns = None\<rparr>"
    and "dependencies rule = None" and "dotenv rule = None"
  shows "extensionSet ix =
           {ext. \<exists>f\<in>set rootFiles. \<not> isDirectory f \<and> has_extension (name f) ext} \<and>
         evaluateRule rule (allPaths ix) (extensionSet ix) (allFileNames ix) prov depsMap env st =
           (Inr (\<exists>f\<in>set rootFiles. \<not> isDirectory f \<and>
                   (\<exists>ext\<in>set es. has_extension (name f) ext)), st)"
proof -
  have e: "extensionSet ix =
           {ext. \<exists>f\<in>set rootFiles. \<not> isDirectory f \<and> has_extension (name f) ext}"
    by (rule build_index_fields(2) [OF assms(1,2)])
  have "ext_block rule (extensionSet ix) \<longleftrightarrow>
      (\<exists>f\<in>set rootFiles. \<not> isDirectory f \<and> (\<exists>ext\<in>set es. has_extension (name f) ext))"
    unfolding e using assms(3) by (auto simp: ext_block_def ext_loop_iff)
  then have "evaluateRule rule (allPaths ix) (extensionSet ix) (allFileNames ix) prov depsMap env st =
           (Inr (\<exists>f\<in>set rootFiles. \<not> isDirectory f \<and>
                   (\<exists>ext\<in>set es. has_extension (name f) ext)), st)"
    using assms(3,4,5)
    by (simp add: evaluateRule_def files_block_def content_block_def deps_block_def
          dotenv_block_def)
  then show ?thesis
    using e by blast
qed

theorem extension_root_only_witness:
  "build_index demo_provider = Inr demo_index \<and>
   has_extension ''app.tsx'' ''.tsx'' \<and>
   evaluateRule tsx_rule (allPaths demo_index) (extensionSet demo_index)
     (allFileNames demo_index) demo_provider (\<lambda>t. []) [] init_state = (Inr True, init_state) \<and>
   listFiles demo_provider ''src/lib'' =
     Inr [\<lparr>path = ''src/lib/x.py'', name = ''x.py'', isDirectory = False\<rparr>] \<and>
   has_extension ''x.py'' ''.py'' \<and>
   evaluateRule py_rule (allPaths demo_index) (extensionSet demo_index)
     (allFileNames demo_index) demo_provider (\<lambda>t. []) [] init_state = (Inr False, init_state)"
proof -
  have r1: "rule_match tsx_rule =
      Some \<lparr>files = None, extensions = Some [''.ts'', ''.tsx''], contentPatterns = None\<rparr>"
    "dependencies tsx_rule = None" "dotenv tsx_rule = None"
    by (simp_all add: rule_defs)
  have r2: "rule_match py_rule =
      Some \<lparr>files = None, extensions = Some [''.py''], contentPatterns = None\<rparr>"
    "dependencies py_rule = None" "dotenv py_rule = None"
    by (simp_all add: rule_defs)
  have h: "has_extension ''app.tsx'' ''.tsx''" "has_extension ''x.py'' ''.py''"
    by (simp_all add: has_extension_def)
  have l: "listFiles demo_provider ''src/lib'' =
     Inr [\<lparr>path = ''src/lib/x.py'', name = ''x.py'', isDirectory = False\<rparr>]"
    by (simp add: demo_provider_def)
  have t: "evaluateRule tsx_rule (allPaths demo_index) (extensionSet demo_index)
     (allFileNames demo_index) demo_provider (\<lambda>t. []) [] init_state = (Inr True, init_state)"
    using conjunct2 [OF extension_root_only [OF demo_root demo_index r1,
        of "\<lambda>t. []" "[]" init_state]]
    by (simp add: has_extension_def)
  have p: "evaluateRule py_rule (allPaths demo_index) (extensionSet demo_index)
     (allFileNames demo_index) demo_provider (\<lambda>t. []) [] init_state = (Inr False, init_state)"
    using conjunct2 [OF extension_root_only [OF demo_root demo_index r2,
        of "\<lambda>t. []" "[]" init_state]]
    by (simp add: has_extension_def)
  show ?thesis
    using demo_index h l t p by blast
qed

subsection \<open>The requirement-list extractor\<close>

lemma split_lines_no_lf: "l \<in> set (split_lines s) \<Longrightarrow> CHR 0x0A \<notin> set l"
proof (induction s arbitrary: l rule: split_lines.induct)
  case 1
  then show ?case by simp
next
  case (2 c cs)
  then show ?case
    by (auto split: if_splits list.splits)
qed

lemma strip_comment_takeWhile:
  "\<forall>c\<in>set (dropWhile (\<lambda>c. c \<noteq> CHR ''#'') l). \<not> is_line_terminator c \<Longrightarrow>
   strip_comment l = takeWhile (\<lambda>c. c \<noteq> CHR ''#'') l"
proof (induction l)
  case Nil
  then show ?case by simp
next
  case (Cons c cs)
  show ?case
  proof (cases "c = CHR ''#''")
    case True
    with Cons.prems have "\<forall>x\<in>set cs. \<not> is_line_terminator x" by simp
    then have "dropWhile (\<lambda>x. \<not> is_line_terminator x) cs = []" by simp
    with True show ?thesis by simp
  next
    case False
    with Cons show ?thesis by simp
  qed
qed

lemma startsWith_dash: "l \<noteq> [] \<Longrightarrow> startsWith l ''-'' \<longleftrightarrow> hd l = CHR ''-''"
  by (cases l) (simp_all add: startsWith_def)

lemma names_of_lines:
  assumes "\<forall>l\<in>set ls. strip_comment l = takeWhile (\<lambda>c. c \<noteq> CHR ''#'') l"
  shows "filter (\<lambda>l. l \<noteq> [])
       (map (\<lambda>l. trim (first_piece l))
         (filter (\<lambda>l. l \<noteq> [] \<and> \<not> startsWith l ''-'')
           (map (\<lambda>l. trim (strip_comment l)) ls))) = List.map_filter line_name ls"
  using assms
proof (induction ls)
  case Nil
  then show ?case by (simp add: List.map_filter_simps)
next
  case (Cons l ls)
  have s: "strip_comment l = takeWhile (\<lambda>c. c \<noteq> CHR ''#'') l"
    using Cons.prems by simp
  have ih: "filter (\<lambda>l. l \<noteq> [])
       (map (\<lambda>l. trim (first_piece l))
         (filter (\<lambda>l. l \<noteq> [] \<and> \<not> startsWith l ''-'')
           (map (\<lambda>l. trim (strip_comment l)) ls))) = List.map_filter line_name ls"
    using Cons by simp
  define body where "body = trim (strip_comment l)"
  have sep: "(\<lambda>c. c \<notin> set ''><=!~;['') = (\<lambda>c. \<not> is_version_sep c)"
    by (rule ext) (simp add: is_version_sep_def)
  have ln: "line_name l =
      (if body = [] \<or> hd body = CHR ''-'' then None
       else if trim (first_piece body) = [] then None
       else Some (trim (first_piece body)))"
    unfolding line_name_def Let_def sep first_piece_def body_def s ..
  have hd: "map (\<lambda>l. trim (strip_comment l)) (l # ls) =
      body # map (\<lambda>l. trim (strip_comment l)) ls"
    by (simp add: body_def)
  show ?case
    unfolding hd
    by (cases "body = []") (simp_all add: List.map_filter_simps ln ih startsWith_dash)
qed

lemma extractPythonDeps_refines:
  assumes "\<forall>l\<in>set (split_lines content).
             CHR 0x0D \<notin> set (dropWhile (\<lambda>c. c \<noteq> CHR ''#'') l)"
  shows "extractPythonDeps content = requirement_names content"
proof -
  have "strip_comment l = takeWhile (\<lambda>c. c \<noteq> CHR ''#'') l"
    if l: "l \<in> set (split_lines content)" for l
  proof (rule strip_comment_takeWhile, rule ballI)
    fix c
    assume c: "c \<in> set (dropWhile (\<lambda>c. c \<noteq> CHR ''#'') l)"
    then have "c \<in> set l"
      by (meson set_dropWhileD)
    then have "c \<noteq> CHR 0x0A"
      using split_lines_no_lf [OF l] by auto
    moreover have "c \<noteq> CHR 0x0D"
      using assms l c by auto
    ultimately show "\<not> is_line_terminator c"
      by (cases c) (auto simp: is_line_terminator_def)
  qed
  then show ?thesis
    unfolding extractPythonDeps_def requirement_names_def
    by (intro names_of_lines) simp
qed


text \<open>
  Claim C9. On every text in which no line has a carriage return after its first \<open>#\<close>,
  the extractor returns what the description says (lemma \<open>extractPythonDeps_refines\<close>).
  On a line whose comment holds a carriage return the comment is not stripped, because the
  dot of the regular expression does not match a carriage return: for the two lines
  \<^verbatim>\<open>flask # web\<close> (ended by carriage return, carriage return, line feed) and
  \<^verbatim>\<open>django\<close> the code returns the names \<^verbatim>\<open>flask # web\<close> and \<^verbatim>\<open>django\<close>, where the
  description gives \<^verbatim>\<open>flask\<close> and \<^verbatim>\<open>django\<close>.
\<close>

theorem requirements_comment_carriage_return:
  "extractPythonDeps (''flask # web'' @ [CHR 0x0D, CHR 0x0D, CHR 0x0A] @ ''django'') =
     [''flask # web'', ''django''] \<and>
   requirement_names (''flask # web'' @ [CHR 0x0D, CHR 0x0D, CHR 0x0A] @ ''django'') =
     [''flask'', ''django'']"
  by (simp add: extractPythonDeps_def requirement_names_def line_name_def
        List.map_filter_simps trim_def first_piece_def is_version_sep_def is_space_def
        is_line_terminator_def startsWith_def Let_def)

end
